theory Spec2Isabelle
  imports Complex_Main
begin

unbundle bit_operations_syntax

section \<open>Rainflow counting (four-point method): the model of rainflow.c\<close>

text \<open>
  The theory embeds the functions of \<^verbatim>\<open>rainflow.c\<close>. The values of type
  \<^verbatim>\<open>RFC_value_type\<close> and \<^verbatim>\<open>double\<close> are idealised as real numbers.
  The header \<^verbatim>\<open>rainflow.h\<close> is not part of the sources, so the constants and macros
  it defines are parameters of the model, collected in the record \<open>rfc_header\<close>; every
  function that depends on one of them takes the record as its first argument.
\<close>

subsection \<open>What rainflow.h declares\<close>

record rfc_header =
  NDEBUG :: bool                      \<comment> \<open>the build switches \<^verbatim>\<open>assert\<close> off\<close>
  SIZEOF_CTX :: nat                   \<comment> \<open>\<^verbatim>\<open>sizeof(rfc_ctx_s)\<close>\<close>
  UINT_MAX :: nat                     \<comment> \<open>largest value of \<^verbatim>\<open>unsigned\<close>\<close>
  SIZE_MAX :: nat                     \<comment> \<open>largest value of \<^verbatim>\<open>size_t\<close>\<close>
  RFC_COUNTS_MAX :: nat               \<comment> \<open>largest value of \<^verbatim>\<open>RFC_counts_type\<close>\<close>
  RFC_COUNTS_LIMIT :: nat
  RFC_FULL_CYCLE_INCREMENT :: nat
  RFC_HALF_CYCLE_INCREMENT :: nat
  RFC_FLAGS_DEFAULT :: int
  RFC_FLAGS_COUNT_RFM :: int
  RFC_FLAGS_COUNT_DAMAGE :: int
  RFC_RES_NONE :: int
  RFC_RES_IGNORE :: int
  RESIDUE_NUMEL :: nat                \<comment> \<open>\<^verbatim>\<open>NUMEL( rfc_ctx->internal.residue )\<close>\<close>

text \<open>
  Modelled from the spec: the enumeration of the context states, which rainflow.h
  declares. The spec gives the life cycle
  \<open>INIT0 \<rightarrow> INIT \<rightarrow> BUSY \<rightarrow> BUSY_INTERIM \<rightarrow> FINALIZE \<rightarrow> FINISHED\<close> plus the terminal
  \<open>ERROR\<close>; \<open>state_num\<close> is the value of each enumerator in that order, which the
  source compares with \<^verbatim>\<open><\<close> and \<^verbatim>\<open>>=\<close>.
\<close>

datatype rfc_state =
    RFC_STATE_INIT0
  | RFC_STATE_INIT
  | RFC_STATE_BUSY
  | RFC_STATE_BUSY_INTERIM
  | RFC_STATE_FINALIZE
  | RFC_STATE_FINISHED
  | RFC_STATE_ERROR

fun state_num :: "rfc_state \<Rightarrow> nat" where
  "state_num RFC_STATE_INIT0 = 0"
| "state_num RFC_STATE_INIT = 1"
| "state_num RFC_STATE_BUSY = 2"
| "state_num RFC_STATE_BUSY_INTERIM = 3"
| "state_num RFC_STATE_FINALIZE = 4"
| "state_num RFC_STATE_FINISHED = 5"
| "state_num RFC_STATE_ERROR = 6"

text \<open>
  Modelled from the spec: the error codes of rainflow.h. The source stores
  \<^verbatim>\<open>RFC_ERROR_INVARG\<close> only; \<open>RFC_ERROR_NOERROR\<close> is the value of a zero-initialised
  context.
\<close>

datatype rfc_error = RFC_ERROR_NOERROR | RFC_ERROR_INVARG

datatype rfc_mem_aim = RFC_MEM_AIM_TEMP | RFC_MEM_AIM_RESIDUE | RFC_MEM_AIM_MATRIX

record rfc_value_tuple =
  val :: real      \<comment> \<open>member \<^verbatim>\<open>value\<close>\<close>
  cls :: nat
  pos :: nat

definition nil :: rfc_value_tuple where
  "nil = \<lparr>val = 0, cls = 0, pos = 0\<rparr>"

text \<open>
  The context \<^verbatim>\<open>rfc_ctx_s\<close>, with the members the source uses. The members of
  \<^verbatim>\<open>internal\<close> carry the prefix \<open>internal_\<close>. A pointer member is an option: \<open>None\<close>
  is \<^verbatim>\<open>NULL\<close>, and \<open>Some xs\<close> is a buffer holding the elements \<open>xs\<close>. The allocator
  hook \<^verbatim>\<open>mem_alloc\<close> (by default \<^verbatim>\<open>RFC_mem_alloc\<close>, that is \<^verbatim>\<open>calloc\<close>) is represented by
  its outcome: \<open>mem_alloc c num aim\<close> tells whether a request for \<open>num\<close> elements returns
  a (zero-filled) buffer rather than \<^verbatim>\<open>NULL\<close>.
\<close>

record rfc_ctx =
  version :: nat
  state :: rfc_state
  error :: rfc_error
  mem_alloc :: "nat \<Rightarrow> rfc_mem_aim \<Rightarrow> bool"
  full_inc :: nat
  half_inc :: nat
  curr_inc :: nat
  class_count :: nat
  class_width :: real
  class_offset :: real
  hysteresis :: real
  wl_sd :: real
  wl_nd :: real
  wl_k :: real
  residue :: "rfc_value_tuple list option"
  residue_cap :: nat
  residue_cnt :: nat
  rfm :: "nat list option"
  pseudo_damage :: real
  internal_flags :: int
  internal_slope :: int
  internal_extrema0 :: rfc_value_tuple     \<comment> \<open>\<^verbatim>\<open>internal.extrema[0]\<close>, local minimum\<close>
  internal_extrema1 :: rfc_value_tuple     \<comment> \<open>\<^verbatim>\<open>internal.extrema[1]\<close>, local maximum\<close>
  internal_pos :: nat
  internal_global_offset :: nat
  internal_residue :: "rfc_value_tuple list"   \<comment> \<open>the embedded array \<^verbatim>\<open>internal.residue\<close>\<close>
  internal_residue_cap :: nat
  internal_res_static :: bool

subsection \<open>Abnormal termination\<close>

text \<open>
  A run of the C program that does not return is a value of the model:
  a failed \<^verbatim>\<open>assert\<close> (when \<open>NDEBUG\<close> is off), an access outside a buffer or through
  \<^verbatim>\<open>NULL\<close>, and the conversion of a \<^verbatim>\<open>double\<close> to \<^verbatim>\<open>unsigned\<close> whose truncated value
  is not representable (undefined in C99, 6.3.1.4).
\<close>

datatype fault = AssertionFailed | MemoryFault | UndefinedConversion

definition thenR :: "fault + 'a \<Rightarrow> ('a \<Rightarrow> fault + 'b) \<Rightarrow> fault + 'b" where
  "thenR m f = (case m of Inl e \<Rightarrow> Inl e | Inr x \<Rightarrow> f x)"

definition assert_c :: "rfc_header \<Rightarrow> bool \<Rightarrow> fault + unit" where
  "assert_c H b = (if NDEBUG H \<or> b then Inr () else Inl AssertionFailed)"

definition residue_at :: "rfc_ctx \<Rightarrow> nat \<Rightarrow> fault + rfc_value_tuple" where
  "residue_at ctx i =
     (case residue ctx of
        None \<Rightarrow> Inl MemoryFault
      | Some R \<Rightarrow> if i < length R then Inr (R ! i) else Inl MemoryFault)"

definition residue_set :: "rfc_ctx \<Rightarrow> nat \<Rightarrow> rfc_value_tuple \<Rightarrow> fault + rfc_ctx" where
  "residue_set ctx i v =
     (case residue ctx of
        None \<Rightarrow> Inl MemoryFault
      | Some R \<Rightarrow> if i < length R then Inr (ctx\<lparr>residue := Some (R[i := v])\<rparr>)
                  else Inl MemoryFault)"

text \<open>\<^verbatim>\<open>state >= lo && state < hi\<close>\<close>

definition state_within :: "rfc_ctx \<Rightarrow> rfc_state \<Rightarrow> rfc_state \<Rightarrow> bool" where
  "state_within ctx lo hi =
     (state_num lo \<le> state_num (state ctx) \<and> state_num (state ctx) < state_num hi)"

subsection \<open>Macros and small helpers\<close>

text \<open>
  \<^verbatim>\<open>#define QUANTIZE( r, v ) ( (unsigned)( ((v) - (r)->class_offset) / (r)->class_width ) )\<close>
  The conversion truncates towards zero. A zero class width makes the quotient infinite
  or not a number, whose conversion is undefined as well.
\<close>

definition QUANTIZE :: "rfc_header \<Rightarrow> rfc_ctx \<Rightarrow> real \<Rightarrow> fault + nat" where
  "QUANTIZE H r v =
     (if class_width r = 0 then Inl UndefinedConversion
      else
        let q = (v - class_offset r) / class_width r;
            t = (if 0 \<le> q then \<lfloor>q\<rfloor> else \<lceil>q\<rceil>)
        in if t < 0 \<or> int (UINT_MAX H) < t then Inl UndefinedConversion
           else Inr (nat t))"

text \<open>\<^verbatim>\<open>value_delta\<close> returns the absolute difference and the sign (-1 or 1).\<close>

definition value_delta :: "real \<Rightarrow> real \<Rightarrow> real \<times> int" where
  "value_delta from_val to_val =
     (let delta = to_val - from_val
      in (\<bar>delta\<bar>, if delta < 0 then - 1 else 1))"

definition RFC_wl_init :: "rfc_ctx \<Rightarrow> real \<Rightarrow> real \<Rightarrow> real \<Rightarrow> rfc_ctx" where
  "RFC_wl_init ctx sd nd k = ctx\<lparr>wl_sd := sd, wl_nd := nd, wl_k := - \<bar>k\<bar>\<rparr>"

subsection \<open>Damage\<close>

definition RFC_damage_calc_amplitude :: "rfc_header \<Rightarrow> rfc_ctx \<Rightarrow> real \<Rightarrow> fault + real" where
  "RFC_damage_calc_amplitude H ctx Sa =
     thenR (assert_c H (state_num RFC_STATE_INIT \<le> state_num (state ctx))) (\<lambda>_.
       let SD_log = ln (wl_sd ctx);
           ND_log = ln (wl_nd ctx);
           k = wl_k ctx
       in if 0 \<le> Sa then Inr (exp (\<bar>k\<bar> * (ln Sa - SD_log) - ND_log))
          else thenR (assert_c H False) (\<lambda>_. Inr 0))"

text \<open>The result is the pair of the damage and of the amplitude \<^verbatim>\<open>*Sa_ret\<close>.\<close>

definition RFC_damage_calc :: "rfc_header \<Rightarrow> rfc_ctx \<Rightarrow> nat \<Rightarrow> nat \<Rightarrow> fault + (real \<times> real)" where
  "RFC_damage_calc H ctx class_from class_to =
     thenR (assert_c H (state_num RFC_STATE_INIT \<le> state_num (state ctx))) (\<lambda>_.
       if class_from \<noteq> class_to then
         let range = class_width ctx * real_of_int \<bar>int class_to - int class_from\<bar>;
             amplitude = range / 2
         in thenR (RFC_damage_calc_amplitude H ctx amplitude) (\<lambda>damage.
              Inr (damage, amplitude))
       else Inr (0, - 1))"

subsection \<open>Counting a closed cycle\<close>

text \<open>
  \<^verbatim>\<open>from\<close> and \<^verbatim>\<open>to\<close> point into the residue and are only read, so the model takes the
  two tuples; \<^verbatim>\<open>next\<close> is not used by the source. \<^verbatim>\<open>class_count - 1\<close> is computed in
  \<^verbatim>\<open>unsigned\<close> and wraps for a zero class count, as does the index of the matrix.
\<close>

definition clamp_class :: "rfc_header \<Rightarrow> rfc_ctx \<Rightarrow> nat \<Rightarrow> nat" where
  "clamp_class H ctx c =
     (if class_count ctx \<le> c
      then (if class_count ctx = 0 then UINT_MAX H else class_count ctx - 1)
      else c)"

definition RFC_cycle_process_counts ::
  "rfc_header \<Rightarrow> rfc_ctx \<Rightarrow> rfc_value_tuple \<Rightarrow> rfc_value_tuple \<Rightarrow> int \<Rightarrow> fault + rfc_ctx" where
  "RFC_cycle_process_counts H ctx from to flags =
     thenR (assert_c H (state_within ctx RFC_STATE_INIT RFC_STATE_FINISHED)) (\<lambda>_.
     thenR (assert_c H (class_count ctx = 0 \<or>
              (class_offset ctx < val from \<and> class_offset ctx < val to))) (\<lambda>_.
     thenR (QUANTIZE H ctx (val from)) (\<lambda>qf.
     let class_from = clamp_class H ctx qf in
     thenR (QUANTIZE H ctx (val to)) (\<lambda>qt.
     let class_to = clamp_class H ctx qt in
     if class_from \<noteq> class_to then
       thenR (if flags AND RFC_FLAGS_COUNT_DAMAGE H \<noteq> 0
              then thenR (RFC_damage_calc H ctx class_from class_to) (\<lambda>(damage, amplitude).
                     Inr (ctx\<lparr>pseudo_damage := pseudo_damage ctx
                                  + damage / real (full_inc ctx) * real (curr_inc ctx)\<rparr>))
              else Inr ctx) (\<lambda>ctx.
       case rfm ctx of
         None \<Rightarrow> Inr ctx
       | Some M \<Rightarrow>
           if flags AND RFC_FLAGS_COUNT_RFM H \<noteq> 0 then
             let idx = (class_count ctx * class_from + class_to) mod (UINT_MAX H + 1)
             in if idx < length M then
                  thenR (assert_c H (M ! idx \<le> RFC_COUNTS_LIMIT H)) (\<lambda>_.
                    Inr (ctx\<lparr>rfm := Some (M[idx := (M ! idx + curr_inc ctx)
                                                     mod (RFC_COUNTS_MAX H + 1)])\<rparr>))
                else Inl MemoryFault
           else Inr ctx)
     else Inr ctx))))"

text \<open>
  The class of a value as \<^verbatim>\<open>RFC_cycle_process_counts\<close> computes it: \<^verbatim>\<open>QUANTIZE\<close>, then
  the clamp to the last class. It is read only where \<^verbatim>\<open>QUANTIZE\<close> returns.
\<close>

definition cycle_class :: "rfc_header \<Rightarrow> rfc_ctx \<Rightarrow> real \<Rightarrow> nat" where
  "cycle_class H ctx v = clamp_class H ctx (projr (QUANTIZE H ctx v))"

subsection \<open>The residue\<close>

text \<open>The loop \<^verbatim>\<open>while( from < end ) residue[to++] = residue[from++];\<close>\<close>

function residue_shift :: "rfc_ctx \<Rightarrow> nat \<Rightarrow> nat \<Rightarrow> nat \<Rightarrow> fault + rfc_ctx" where
  "residue_shift ctx from to end =
     (if from < end then
        (case residue ctx of
           None \<Rightarrow> Inl MemoryFault
         | Some R \<Rightarrow>
             if from < length R \<and> to < length R
             then residue_shift (ctx\<lparr>residue := Some (R[to := R ! from])\<rparr>) (Suc from) (Suc to) end
             else Inl MemoryFault)
      else Inr ctx)"
  by pat_completeness auto
termination
  by (relation "measure (\<lambda>(ctx, from, to, end). end - from)") auto

definition RFC_residue_remove_item ::
  "rfc_header \<Rightarrow> rfc_ctx \<Rightarrow> nat \<Rightarrow> nat \<Rightarrow> fault + rfc_ctx" where
  "RFC_residue_remove_item H ctx index count =
     (let from = index + count;
          to = index
      in
      thenR (assert_c H (state_within ctx RFC_STATE_INIT RFC_STATE_FINISHED)) (\<lambda>_.
      thenR (assert_c H (residue ctx \<noteq> None \<and> index + count \<le> residue_cnt ctx)) (\<lambda>_.
      let end = residue_cnt ctx;
          end = (if state ctx = RFC_STATE_BUSY_INTERIM then end + 1 else end)
      in
      thenR (residue_shift ctx from to end) (\<lambda>ctx.
        Inr (ctx\<lparr>residue_cnt :=
                   (residue_cnt ctx + (SIZE_MAX H + 1) - count) mod (SIZE_MAX H + 1)\<rparr>)))))"

subsection \<open>The four-point method\<close>

text \<open>
  The test of the loop body on the values of the four points: \<^verbatim>\<open>B\<close> and \<^verbatim>\<open>C\<close> are
  swapped when \<^verbatim>\<open>B > C\<close>, \<^verbatim>\<open>A\<close> and \<^verbatim>\<open>D\<close> when \<^verbatim>\<open>A > D\<close>, and the cycle is closed if
  \<^verbatim>\<open>A <= B && C <= D\<close>.
\<close>

definition four_point_closed :: "real \<Rightarrow> real \<Rightarrow> real \<Rightarrow> real \<Rightarrow> bool" where
  "four_point_closed A B C D =
     (let (B, C) = (if B > C then (C, B) else (B, C));
          (A, D) = (if A > D then (D, A) else (A, D))
      in A \<le> B \<and> C \<le> D)"

text \<open>
  The block of the loop body that removes the two inner turning points \<^verbatim>\<open>idx+1\<close> and
  \<^verbatim>\<open>idx+2\<close>: the last turning point moves to \<^verbatim>\<open>idx+1\<close>, the interim turning point (in
  state \<open>BUSY_INTERIM\<close>) to \<^verbatim>\<open>idx+2\<close>, and \<^verbatim>\<open>residue_cnt\<close> decreases by 2.
\<close>

definition remove_inner_points :: "rfc_ctx \<Rightarrow> nat \<Rightarrow> fault + rfc_ctx" where
  "remove_inner_points ctx idx =
     thenR (residue_at ctx (idx + 3)) (\<lambda>v.
     thenR (residue_set ctx (idx + 1) v) (\<lambda>ctx.
     thenR (if state ctx = RFC_STATE_BUSY_INTERIM
            then thenR (residue_at ctx (idx + 4)) (\<lambda>v. residue_set ctx (idx + 2) v)
            else Inr ctx) (\<lambda>ctx.
     Inr (ctx\<lparr>residue_cnt := residue_cnt ctx - 2\<rparr>))))"

text \<open>
  One pass through the body of the loop of \<^verbatim>\<open>RFC_cycle_find_4ptm\<close>, entered with
  \<^verbatim>\<open>residue_cnt >= 4\<close>: \<open>Some\<close> of the context after a closed cycle was counted and
  removed, \<open>None\<close> for \<^verbatim>\<open>break\<close>.
\<close>

definition RFC_cycle_find_4ptm_body ::
  "rfc_header \<Rightarrow> rfc_ctx \<Rightarrow> int \<Rightarrow> fault + rfc_ctx option" where
  "RFC_cycle_find_4ptm_body H ctx flags =
     (let idx = residue_cnt ctx - 4 in
      thenR (residue_at ctx (idx + 0)) (\<lambda>tA.
      thenR (residue_at ctx (idx + 1)) (\<lambda>tB.
      thenR (residue_at ctx (idx + 2)) (\<lambda>tC.
      thenR (residue_at ctx (idx + 3)) (\<lambda>tD.
      if four_point_closed (val tA) (val tB) (val tC) (val tD) then
        thenR (RFC_cycle_process_counts H ctx tB tC flags) (\<lambda>ctx.
        thenR (remove_inner_points ctx idx) (\<lambda>ctx.
        Inr (Some ctx)))
      else Inr None)))))"

lemma RFC_cycle_process_counts_residue_cnt:
  "RFC_cycle_process_counts H ctx from to flags = Inr ctx' \<Longrightarrow> residue_cnt ctx' = residue_cnt ctx"
  by (auto simp: RFC_cycle_process_counts_def thenR_def assert_c_def Let_def
           split: sum.splits if_splits option.splits prod.splits)

lemma residue_set_residue_cnt:
  "residue_set ctx i v = Inr ctx' \<Longrightarrow> residue_cnt ctx' = residue_cnt ctx"
  by (auto simp: residue_set_def split: option.splits if_splits)

lemma remove_inner_points_residue_cnt:
  "remove_inner_points ctx idx = Inr ctx' \<Longrightarrow> residue_cnt ctx' = residue_cnt ctx - 2"
  by (auto simp: remove_inner_points_def thenR_def residue_at_def residue_set_def
           split: sum.splits if_splits option.splits)

lemma RFC_cycle_find_4ptm_body_residue_cnt:
  assumes "RFC_cycle_find_4ptm_body H ctx flags = Inr (Some ctx')"
  shows "residue_cnt ctx' = residue_cnt ctx - 2"
  using assms
  by (auto simp: RFC_cycle_find_4ptm_body_def thenR_def Let_def
           split: sum.splits if_splits
           dest!: RFC_cycle_process_counts_residue_cnt remove_inner_points_residue_cnt)

function RFC_cycle_find_4ptm_while :: "rfc_header \<Rightarrow> rfc_ctx \<Rightarrow> int \<Rightarrow> fault + rfc_ctx" where
  "RFC_cycle_find_4ptm_while H ctx flags =
     (if 4 \<le> residue_cnt ctx then
        (case RFC_cycle_find_4ptm_body H ctx flags of
           Inl e \<Rightarrow> Inl e
         | Inr None \<Rightarrow> Inr ctx
         | Inr (Some ctx') \<Rightarrow> RFC_cycle_find_4ptm_while H ctx' flags)
      else Inr ctx)"
  by pat_completeness auto
termination
proof (relation "measure (\<lambda>(H, ctx, flags). residue_cnt ctx)")
  show "wf (measure (\<lambda>(H, ctx, flags). residue_cnt ctx))"
    by simp
next
  fix H :: rfc_header and ctx :: rfc_ctx and flags :: int and r ctx'
  assume "4 \<le> residue_cnt ctx"
    and "RFC_cycle_find_4ptm_body H ctx flags = Inr r" and "r = Some ctx'"
  then show "((H, ctx', flags), (H, ctx, flags)) \<in> measure (\<lambda>(H, ctx, flags). residue_cnt ctx)"
    using RFC_cycle_find_4ptm_body_residue_cnt [of H ctx flags ctx'] by simp
qed

definition RFC_cycle_find_4ptm :: "rfc_header \<Rightarrow> rfc_ctx \<Rightarrow> int \<Rightarrow> fault + rfc_ctx" where
  "RFC_cycle_find_4ptm H ctx flags =
     thenR (assert_c H (state_within ctx RFC_STATE_INIT RFC_STATE_FINISHED)) (\<lambda>_.
       RFC_cycle_find_4ptm_while H ctx flags)"

subsection \<open>The turning-point filter\<close>

text \<open>
  The tail of \<^verbatim>\<open>RFC_feed_filter_pt\<close> under \<^verbatim>\<open>if( do_append )\<close>: the point becomes the
  new interim turning point, and the result points to the element before it.
\<close>

definition filter_append ::
  "rfc_header \<Rightarrow> rfc_ctx \<Rightarrow> rfc_value_tuple \<Rightarrow> fault + (nat option \<times> rfc_ctx)" where
  "filter_append H ctx pt =
     thenR (assert_c H (state ctx = RFC_STATE_BUSY_INTERIM)) (\<lambda>_.
     thenR (assert_c H (residue_cnt ctx < residue_cap ctx)) (\<lambda>_.
     let ctx = ctx\<lparr>residue_cnt := residue_cnt ctx + 1\<rparr> in
     thenR (residue_set ctx (residue_cnt ctx) pt) (\<lambda>ctx.
       Inr (Some (residue_cnt ctx - 1), ctx))))"

text \<open>
  The result is the pair of the returned pointer (the index of the new turning point
  in the residue, or \<open>None\<close> for \<^verbatim>\<open>NULL\<close>) and of the context. The argument \<^verbatim>\<open>pt\<close>
  is never \<^verbatim>\<open>NULL\<close> at the one call site.
\<close>

definition RFC_feed_filter_pt ::
  "rfc_header \<Rightarrow> rfc_ctx \<Rightarrow> rfc_value_tuple \<Rightarrow> fault + (nat option \<times> rfc_ctx)" where
  "RFC_feed_filter_pt H ctx pt =
     thenR (assert_c H (state_num RFC_STATE_INIT \<le> state_num (state ctx) \<and>
                        state_num (state ctx) \<le> state_num RFC_STATE_BUSY_INTERIM)) (\<lambda>_.
     if state_num (state ctx) < state_num RFC_STATE_BUSY_INTERIM then
       if state ctx = RFC_STATE_INIT then
         Inr (None, ctx\<lparr>internal_extrema0 := pt, internal_extrema1 := pt,
                        state := RFC_STATE_BUSY\<rparr>)
       else
         thenR (assert_c H (state ctx = RFC_STATE_BUSY)) (\<lambda>_.
         let (is_falling_slope, ctx) =
               (if val pt < val (internal_extrema0 ctx)
                then (1 :: int, ctx\<lparr>internal_extrema0 := pt\<rparr>)
                else if val pt > val (internal_extrema1 ctx)
                then (0, ctx\<lparr>internal_extrema1 := pt\<rparr>)
                else (- 1, ctx));
             delta = fst (value_delta (val (internal_extrema0 ctx)) (val (internal_extrema1 ctx)))
         in
         if 0 \<le> is_falling_slope \<and> delta > hysteresis ctx then
           thenR (assert_c H (residue_cnt ctx < residue_cap ctx)) (\<lambda>_.
           thenR (residue_set ctx (residue_cnt ctx)
                    (if is_falling_slope = 1 then internal_extrema1 ctx
                     else internal_extrema0 ctx)) (\<lambda>ctx.
           let ctx = ctx\<lparr>internal_slope := (if is_falling_slope \<noteq> 0 then - 1 else 1)\<rparr>;
               ctx = ctx\<lparr>state := RFC_STATE_BUSY_INTERIM\<rparr>
           in filter_append H ctx pt))
         else Inr (None, ctx))
     else
       thenR (assert_c H (state ctx = RFC_STATE_BUSY_INTERIM)) (\<lambda>_.
       thenR (residue_at ctx (residue_cnt ctx)) (\<lambda>interim.
       let (delta, slope) = value_delta (val interim) (val pt) in
       if slope = internal_slope ctx then
         if val interim \<noteq> val pt
         then thenR (residue_set ctx (residue_cnt ctx) pt) (\<lambda>ctx. Inr (None, ctx))
         else Inr (None, ctx)
       else if delta > hysteresis ctx then
         filter_append H (ctx\<lparr>internal_slope := slope\<rparr>) pt
       else Inr (None, ctx))))"

subsection \<open>Feeding one point, finalizing\<close>

definition RFC_feed_once ::
  "rfc_header \<Rightarrow> rfc_ctx \<Rightarrow> rfc_value_tuple \<Rightarrow> int \<Rightarrow> fault + (bool \<times> rfc_ctx)" where
  "RFC_feed_once H ctx pt flags =
     thenR (assert_c H (state_within ctx RFC_STATE_INIT RFC_STATE_FINISHED)) (\<lambda>_.
     thenR (RFC_feed_filter_pt H ctx pt) (\<lambda>(tp_residue, ctx).
       if tp_residue \<noteq> None then
         if class_count ctx \<noteq> 0 then
           thenR (RFC_cycle_find_4ptm H ctx flags) (\<lambda>ctx. Inr (True, ctx))
         else if 1 < residue_cnt ctx then
           thenR (RFC_residue_remove_item H ctx 0 1) (\<lambda>ctx. Inr (True, ctx))
         else Inr (True, ctx)
       else Inr (True, ctx)))"

definition RFC_feed_finalize :: "rfc_header \<Rightarrow> rfc_ctx \<Rightarrow> fault + (bool \<times> rfc_ctx)" where
  "RFC_feed_finalize H ctx =
     thenR (assert_c H (state_within ctx RFC_STATE_INIT RFC_STATE_FINISHED)) (\<lambda>_.
       if state_num (state ctx) < state_num RFC_STATE_FINALIZE then
         let (tp_interim, ctx) =
               (if state ctx = RFC_STATE_BUSY_INTERIM
                then (True, ctx\<lparr>residue_cnt := residue_cnt ctx + 1, state := RFC_STATE_BUSY\<rparr>)
                else (False, ctx))
         in
         thenR (if tp_interim then RFC_cycle_find_4ptm H ctx (internal_flags ctx)
                else Inr ctx) (\<lambda>ctx.
           Inr (True, ctx\<lparr>state := RFC_STATE_FINALIZE\<rparr>))
       else Inr (True, ctx))"

definition RFC_finalize_res_ignore ::
  "rfc_header \<Rightarrow> rfc_ctx \<Rightarrow> int \<Rightarrow> fault + (bool \<times> rfc_ctx)" where
  "RFC_finalize_res_ignore H ctx flags =
     thenR (assert_c H (state_within ctx RFC_STATE_INIT RFC_STATE_FINISHED)) (\<lambda>_.
       RFC_feed_finalize H ctx)"

subsection \<open>The public functions\<close>

text \<open>
  The context is passed by value, so the test \<^verbatim>\<open>!rfc_ctx\<close> has no counterpart. The
  branch of a wrong \<^verbatim>\<open>version\<close> is the same in each public function.
\<close>

definition version_mismatch :: "rfc_header \<Rightarrow> rfc_ctx \<Rightarrow> fault + (bool \<times> rfc_ctx)" where
  "version_mismatch H ctx =
     thenR (assert_c H False) (\<lambda>_. Inr (False, ctx\<lparr>error := RFC_ERROR_INVARG\<rparr>))"

definition RFC_deinit :: "rfc_header \<Rightarrow> rfc_ctx \<Rightarrow> fault + (bool \<times> rfc_ctx)" where
  "RFC_deinit H ctx =
     (if version ctx \<noteq> SIZEOF_CTX H then version_mismatch H ctx
      else if state_num (state ctx) < state_num RFC_STATE_INIT then Inr (False, ctx)
      else
        Inr (True, ctx\<lparr>residue := None, residue_cap := 0, residue_cnt := 0,
                        rfm := None,
                        internal_slope := 0,
                        internal_extrema0 := nil, internal_extrema1 := nil,
                        internal_pos := 0, internal_global_offset := 0,
                        state := RFC_STATE_INIT0\<rparr>))"

definition RFC_init ::
  "rfc_header \<Rightarrow> rfc_ctx \<Rightarrow> nat \<Rightarrow> real \<Rightarrow> real \<Rightarrow> real \<Rightarrow> int \<Rightarrow> fault + (bool \<times> rfc_ctx)" where
  "RFC_init H ctx class_count' class_width' class_offset' hysteresis' flags =
     (if version ctx \<noteq> SIZEOF_CTX H then version_mismatch H ctx
      else if state ctx \<noteq> RFC_STATE_INIT0 then Inr (False, ctx)
      else
        let flags = (if flags = RFC_FLAGS_DEFAULT H
                     then RFC_FLAGS_COUNT_RFM H OR RFC_FLAGS_COUNT_DAMAGE H else flags);
            ctx = ctx\<lparr>internal_flags := flags\<rparr>;
            ctx = ctx\<lparr>full_inc := RFC_FULL_CYCLE_INCREMENT H,
                      half_inc := RFC_HALF_CYCLE_INCREMENT H,
                      curr_inc := RFC_FULL_CYCLE_INCREMENT H\<rparr>
        in
        if class_count' \<noteq> 0 \<and> (512 < class_count' \<or> class_width' \<le> 0) then
          Inr (False, ctx\<lparr>error := RFC_ERROR_INVARG\<rparr>)
        else
          let ctx = ctx\<lparr>class_count := class_count', class_width := class_width',
                        class_offset := class_offset', hysteresis := hysteresis'\<rparr>;
              ctx = RFC_wl_init ctx 1000 10000000 (- 5);
              ctx = ctx\<lparr>internal_residue_cap := RESIDUE_NUMEL H\<rparr>;
              ctx = ctx\<lparr>residue_cnt := 0\<rparr>;
              ctx = ctx\<lparr>residue_cap := 2 * class_count ctx\<rparr>;
              ctx = (if residue_cap ctx \<le> internal_residue_cap ctx then
                       ctx\<lparr>residue_cap := internal_residue_cap ctx,
                           residue := Some (internal_residue ctx),
                           internal_res_static := True\<rparr>
                     else
                       ctx\<lparr>residue := (if mem_alloc ctx (residue_cap ctx) RFC_MEM_AIM_RESIDUE
                                        then Some (replicate (residue_cap ctx) nil) else None),
                           internal_res_static := False\<rparr>);
              (ok, ctx) =
                (if class_count ctx \<noteq> 0 then
                   let ok = (residue ctx \<noteq> None) in
                   if ok \<and> flags AND RFC_FLAGS_COUNT_RFM H \<noteq> 0 then
                     let ctx = ctx\<lparr>rfm :=
                           (if mem_alloc ctx (class_count' * class_count') RFC_MEM_AIM_MATRIX
                            then Some (replicate (class_count' * class_count') 0) else None)\<rparr>
                     in (rfm ctx \<noteq> None, ctx)
                   else (ok, ctx)
                 else (True, ctx))
          in
          if \<not> ok then
            thenR (RFC_deinit H ctx) (\<lambda>(_, ctx).
              Inr (False, ctx\<lparr>error := RFC_ERROR_INVARG\<rparr>))
          else
            let ctx = ctx\<lparr>pseudo_damage := 0\<rparr>;
                ctx = ctx\<lparr>internal_slope := 0,
                          internal_extrema0 := nil, internal_extrema1 := nil\<rparr>
            in Inr (True, ctx\<lparr>state := RFC_STATE_INIT\<rparr>))"

text \<open>
  The loop of \<^verbatim>\<open>RFC_feed\<close> over \<^verbatim>\<open>data_count\<close> elements of the buffer \<^verbatim>\<open>data\<close>;
  reading behind the end of the buffer is a memory fault. The position
  \<^verbatim>\<open>++internal.pos\<close> is a \<^verbatim>\<open>size_t\<close> and wraps.
\<close>

fun RFC_feed_loop ::
  "rfc_header \<Rightarrow> rfc_ctx \<Rightarrow> real list \<Rightarrow> nat \<Rightarrow> fault + (bool \<times> rfc_ctx)" where
  "RFC_feed_loop H ctx [] data_count =
     (if data_count = 0 then Inr (True, ctx) else Inl MemoryFault)"
| "RFC_feed_loop H ctx (x # data) data_count =
     (if data_count = 0 then Inr (True, ctx)
      else
        thenR (QUANTIZE H ctx x) (\<lambda>c.
          let ctx = ctx\<lparr>internal_pos := (internal_pos ctx + 1) mod (SIZE_MAX H + 1)\<rparr>;
              tp = \<lparr>val = x, cls = c, pos = internal_pos ctx\<rparr>
          in
          case RFC_feed_once H ctx tp (internal_flags ctx) of
            Inl e \<Rightarrow> Inl e
          | Inr (ok, ctx) \<Rightarrow>
              if \<not> ok then Inr (False, ctx)
              else RFC_feed_loop H ctx data (data_count - 1)))"

text \<open>The buffer \<^verbatim>\<open>data\<close> is \<open>None\<close> for \<^verbatim>\<open>NULL\<close>.\<close>

definition RFC_feed ::
  "rfc_header \<Rightarrow> rfc_ctx \<Rightarrow> real list option \<Rightarrow> nat \<Rightarrow> fault + (bool \<times> rfc_ctx)" where
  "RFC_feed H ctx data data_count =
     (if data_count \<noteq> 0 \<and> data = None then Inr (False, ctx)
      else if version ctx \<noteq> SIZEOF_CTX H then version_mismatch H ctx
      else if state_num (state ctx) < state_num RFC_STATE_INIT \<or>
              state_num RFC_STATE_FINISHED \<le> state_num (state ctx) then Inr (False, ctx)
      else RFC_feed_loop H ctx (case data of None \<Rightarrow> [] | Some xs \<Rightarrow> xs) data_count)"

definition RFC_finalize :: "rfc_header \<Rightarrow> rfc_ctx \<Rightarrow> int \<Rightarrow> fault + (bool \<times> rfc_ctx)" where
  "RFC_finalize H ctx residual_method =
     (if version ctx \<noteq> SIZEOF_CTX H then version_mismatch H ctx
      else if state_num (state ctx) < state_num RFC_STATE_INIT \<or>
              state_num RFC_STATE_FINISHED \<le> state_num (state ctx) then Inr (False, ctx)
      else
        let flags = internal_flags ctx in
        thenR (if residual_method = RFC_RES_NONE H \<or> residual_method = RFC_RES_IGNORE H
               then RFC_finalize_res_ignore H ctx flags
               else thenR (assert_c H False) (\<lambda>_.
                      Inr (False, ctx\<lparr>error := RFC_ERROR_INVARG\<rparr>))) (\<lambda>(ok, ctx).
        thenR (assert_c H (state ctx = RFC_STATE_FINALIZE)) (\<lambda>_.
        let ctx = (if class_count ctx = 0 then ctx\<lparr>residue_cnt := 0\<rparr> else ctx) in
        Inr (ok, ctx\<lparr>state := (if ok then RFC_STATE_FINISHED else RFC_STATE_ERROR)\<rparr>))))"

subsection \<open>Contexts and headers for concrete runs\<close>

text \<open>
  The context as the test suite declares it, \<^verbatim>\<open>rfc_ctx_s ctx = { sizeof(ctx) }\<close>: the
  version is set and every other member is zero. The argument \<open>alloc\<close> is the outcome
  of the default allocator.
\<close>

definition rfc_ctx_zero :: "rfc_header \<Rightarrow> (nat \<Rightarrow> rfc_mem_aim \<Rightarrow> bool) \<Rightarrow> rfc_ctx" where
  "rfc_ctx_zero H alloc =
     \<lparr>version = SIZEOF_CTX H, state = RFC_STATE_INIT0, error = RFC_ERROR_NOERROR,
      mem_alloc = alloc, full_inc = 0, half_inc = 0, curr_inc = 0,
      class_count = 0, class_width = 0, class_offset = 0, hysteresis = 0,
      wl_sd = 0, wl_nd = 0, wl_k = 0,
      residue = None, residue_cap = 0, residue_cnt = 0, rfm = None, pseudo_damage = 0,
      internal_flags = 0, internal_slope = 0,
      internal_extrema0 = nil, internal_extrema1 = nil,
      internal_pos = 0, internal_global_offset = 0,
      internal_residue = replicate (RESIDUE_NUMEL H) nil,
      internal_residue_cap = 0, internal_res_static = False\<rparr>"

text \<open>
  An instance of the header for the concrete runs below: assertions enabled, a 32-bit
  \<^verbatim>\<open>unsigned\<close>, 64-bit \<^verbatim>\<open>size_t\<close> and counters, the flags on two separate bits, and an
  embedded residue array of \<open>n\<close> elements (the spec states 3).
\<close>

definition header_inst :: "nat \<Rightarrow> rfc_header" where
  "header_inst n =
     \<lparr>NDEBUG = False, SIZEOF_CTX = 1,
      UINT_MAX = 4294967295, SIZE_MAX = 18446744073709551615,
      RFC_COUNTS_MAX = 18446744073709551615, RFC_COUNTS_LIMIT = 18446744073709551613,
      RFC_FULL_CYCLE_INCREMENT = 2, RFC_HALF_CYCLE_INCREMENT = 1,
      RFC_FLAGS_DEFAULT = - 1, RFC_FLAGS_COUNT_RFM = 1, RFC_FLAGS_COUNT_DAMAGE = 2,
      RFC_RES_NONE = 0, RFC_RES_IGNORE = 1, RESIDUE_NUMEL = n\<rparr>"

definition alloc_always :: "nat \<Rightarrow> rfc_mem_aim \<Rightarrow> bool" where
  "alloc_always num aim = True"

text \<open>
  The context that \<^verbatim>\<open>RFC_init\<close> returns for four classes of width 1 from 0.5 on and the
  hysteresis 0.99, as in the tests of the source.
\<close>

definition ctx_init4 :: rfc_ctx where
  "ctx_init4 = snd (projr (RFC_init (header_inst 3) (rfc_ctx_zero (header_inst 3) alloc_always)
                              4 1 (1 / 2) (99 / 100) (- 1)))"

subsection \<open>Client programs and what they read\<close>

text \<open>
  A client is a sequence of calls of the public functions on one context; like the
  MEX wrapper of the source it goes on after a call that returned \<^verbatim>\<open>false\<close>. The
  result is the list of the returned booleans and the final context.
\<close>

datatype rfc_call =
    Call_init nat real real real int
  | Call_feed "real list option" nat
  | Call_finalize int
  | Call_deinit

fun rfc_apply :: "rfc_header \<Rightarrow> rfc_ctx \<Rightarrow> rfc_call \<Rightarrow> fault + (bool \<times> rfc_ctx)" where
  "rfc_apply H ctx (Call_init cc cw co hy fl) = RFC_init H ctx cc cw co hy fl"
| "rfc_apply H ctx (Call_feed data data_count) = RFC_feed H ctx data data_count"
| "rfc_apply H ctx (Call_finalize residual_method) = RFC_finalize H ctx residual_method"
| "rfc_apply H ctx Call_deinit = RFC_deinit H ctx"

fun rfc_run :: "rfc_header \<Rightarrow> rfc_ctx \<Rightarrow> rfc_call list \<Rightarrow> fault + (bool list \<times> rfc_ctx)" where
  "rfc_run H ctx [] = Inr ([], ctx)"
| "rfc_run H ctx (c # cs) =
     thenR (rfc_apply H ctx c) (\<lambda>(ok, ctx).
     thenR (rfc_run H ctx cs) (\<lambda>(oks, ctx). Inr (ok # oks, ctx)))"

text \<open>
  The residue as a client reads it, \<^verbatim>\<open>residue[0]\<close> to \<^verbatim>\<open>residue[residue_cnt - 1]\<close>, and
  the matrix entry that \<^verbatim>\<open>rfm_peek\<close> of the test suite reads for two class indices.
\<close>

definition residue_points :: "rfc_ctx \<Rightarrow> rfc_value_tuple list" where
  "residue_points ctx =
     (case residue ctx of None \<Rightarrow> [] | Some R \<Rightarrow> take (residue_cnt ctx) R)"

definition rfm_entry :: "rfc_ctx \<Rightarrow> nat \<Rightarrow> nat \<Rightarrow> nat" where
  "rfm_entry ctx from to =
     (case rfm ctx of None \<Rightarrow> 0 | Some M \<Rightarrow> M ! (from * class_count ctx + to))"

definition rfm_sum :: "rfc_ctx \<Rightarrow> nat" where
  "rfm_sum ctx = (case rfm ctx of None \<Rightarrow> 0 | Some M \<Rightarrow> sum_list M)"

text \<open>
  The interim turning point \<^verbatim>\<open>residue[residue_cnt]\<close> of the state \<open>BUSY_INTERIM\<close>, and the
  matrix read element by element.
\<close>

definition interim_point :: "rfc_ctx \<Rightarrow> rfc_value_tuple option" where
  "interim_point ctx =
     (case residue ctx of
        None \<Rightarrow> None
      | Some R \<Rightarrow> if state ctx = RFC_STATE_BUSY_INTERIM \<and> residue_cnt ctx < length R
                  then Some (R ! residue_cnt ctx) else None)"

definition rfm_counts :: "rfc_ctx \<Rightarrow> nat list option" where
  "rfm_counts c = map_option (\<lambda>M. map (\<lambda>i. M ! i) [0..<length M]) (rfm c)"

definition ctx_view ::
  "rfc_ctx \<Rightarrow> rfc_state \<times> nat \<times> nat \<times> nat option \<times> rfc_value_tuple list \<times>
     rfc_value_tuple option \<times> nat list option \<times> nat \<times> nat" where
  "ctx_view c = (state c, residue_cnt c, residue_cap c, map_option length (residue c),
                 residue_points c, interim_point c, rfm_counts c, full_inc c, class_count c)"

text \<open>
  The residue stress test of the test suite (\<^verbatim>\<open>RFC_residue_stress_test\<close>): four classes,
  and \<^verbatim>\<open>calc_class_param\<close> gives the class width 1 and the class offset 0.5 for the
  extrema 1 and 4; the hysteresis is 0.99 times the class width. \<open>scenario4_run numel n\<close>
  initializes a zero context under the header with an embedded residue array of
  \<open>numel\<close> elements and feeds the first \<open>n\<close> samples; \<open>scenario4_finalized\<close> feeds all 25
  and finalizes with \<open>RFC_RES_NONE\<close>.
\<close>

definition scenario4 :: "real list" where
  "scenario4 = [2, 3, 1, 4, 1, 3, 2, 3,  2, 3, 1, 4, 1, 3, 2, 3,  2, 3, 1, 4, 1, 3, 2, 3,  19 / 10]"

definition scenario4_run :: "nat \<Rightarrow> nat \<Rightarrow> fault + (bool list \<times> rfc_ctx)" where
  "scenario4_run numel n =
     rfc_run (header_inst numel) (rfc_ctx_zero (header_inst numel) alloc_always)
       [Call_init 4 1 (1 / 2) (99 / 100) (- 1), Call_feed (Some scenario4) n]"

definition scenario4_finalized :: "nat \<Rightarrow> fault + (bool list \<times> rfc_ctx)" where
  "scenario4_finalized numel =
     rfc_run (header_inst numel) (rfc_ctx_zero (header_inst numel) alloc_always)
       [Call_init 4 1 (1 / 2) (99 / 100) (- 1), Call_feed (Some scenario4) 25, Call_finalize 0]"

text \<open>The context after the samples 1, 3, 2, 4 were fed to \<open>ctx_init4\<close>.\<close>

definition ctx_fed4 :: rfc_ctx where
  "ctx_fed4 = snd (projr (RFC_feed (header_inst 3) ctx_init4 (Some [1, 3, 2, 4]) 4))"

text \<open>
  The states in which \<^verbatim>\<open>RFC_feed\<close> and \<^verbatim>\<open>RFC_finalize\<close> go to work: those from \<open>INIT\<close>
  up to, but not including, \<open>FINISHED\<close>.
\<close>

definition feeding :: "rfc_ctx \<Rightarrow> bool" where
  "feeding ctx \<longleftrightarrow>
     state ctx \<in> {RFC_STATE_INIT, RFC_STATE_BUSY, RFC_STATE_BUSY_INTERIM, RFC_STATE_FINALIZE}"

text \<open>Feeding a sequence chunk by chunk: one call of \<^verbatim>\<open>RFC_feed\<close> for each chunk.\<close>

definition feed_calls :: "real list list \<Rightarrow> rfc_call list" where
  "feed_calls chunks = map (\<lambda>a. Call_feed (Some a) (length a)) chunks"

text \<open>
  The calls that count cycles: \<^verbatim>\<open>RFC_feed\<close> and \<^verbatim>\<open>RFC_finalize\<close>.
\<close>

fun counting_call :: "rfc_call \<Rightarrow> bool" where
  "counting_call (Call_feed data data_count) = True"
| "counting_call (Call_finalize residual_method) = True"
| "counting_call (Call_init cc cw co hy fl) = False"
| "counting_call Call_deinit = False"

text \<open>The closure rule of the four-point method as the spec words it.\<close>

definition closed_cycle :: "real \<Rightarrow> real \<Rightarrow> real \<Rightarrow> real \<Rightarrow> bool" where
  "closed_cycle A B C D \<longleftrightarrow> min A D \<le> min B C \<and> max B C \<le> max A D"

section \<open>Basic facts\<close>

lemma thenR_Inr [simp]: "thenR (Inr x) f = f x"
  by (simp add: thenR_def)

lemma thenR_Inl [simp]: "thenR (Inl e) f = Inl e"
  by (simp add: thenR_def)

lemma thenR_InrE:
  assumes "thenR m f = Inr y"
  obtains x where "m = Inr x" and "f x = Inr y"
  using assms by (cases m) auto

lemma thenR_cong:
  "m = m' \<Longrightarrow> (\<And>x. m' = Inr x \<Longrightarrow> f x = g x) \<Longrightarrow> thenR m f = thenR m' g"
  by (cases m') auto

lemma residue_at_Some [simp]:
  "residue ctx = Some R \<Longrightarrow>
     residue_at ctx i = (if i < length R then Inr (R ! i) else Inl MemoryFault)"
  by (simp add: residue_at_def)

lemma residue_set_Some [simp]:
  "residue ctx = Some R \<Longrightarrow>
     residue_set ctx i v =
       (if i < length R then Inr (ctx\<lparr>residue := Some (R[i := v])\<rparr>) else Inl MemoryFault)"
  by (simp add: residue_set_def)

lemma residue_at_None [simp]: "residue ctx = None \<Longrightarrow> residue_at ctx i = Inl MemoryFault"
  by (simp add: residue_at_def)

lemma residue_set_None [simp]: "residue ctx = None \<Longrightarrow> residue_set ctx i v = Inl MemoryFault"
  by (simp add: residue_set_def)

lemma take_eq_map_nth: "n \<le> length xs \<Longrightarrow> take n xs = map (\<lambda>i. xs ! i) [0..<n]"
  by (rule nth_equalityI) auto

text \<open>The definitions that a concrete run unfolds.\<close>

lemmas rfc_eval =
  RFC_init_def RFC_deinit_def RFC_feed_def RFC_feed_once_def RFC_feed_filter_pt_def
  filter_append_def RFC_cycle_find_4ptm_def RFC_cycle_find_4ptm_body_def
  remove_inner_points_def   RFC_cycle_process_counts_def RFC_damage_calc_def RFC_damage_calc_amplitude_def
  RFC_finalize_def RFC_finalize_res_ignore_def RFC_feed_finalize_def
  RFC_residue_remove_item_def RFC_wl_init_def QUANTIZE_def clamp_class_def
  value_delta_def four_point_closed_def residue_at_def residue_set_def assert_c_def
  state_within_def rfc_ctx_zero_def header_inst_def alloc_always_def nil_def
  version_mismatch_def residue_points_def rfm_entry_def rfm_sum_def Let_def
  nth_list_update take_eq_map_nth
  ctx_view_def rfm_counts_def interim_point_def upt_rec
  RFC_cycle_find_4ptm_while.simps residue_shift.simps

lemma rfm_counts_eq: "rfm_counts c = rfm c"
  by (cases "rfm c") (simp_all add: rfm_counts_def map_nth)

lemma map_sum_view_InrD:
  assumes "map_sum id (map_prod id ctx_view) r = Inr (oks, st, n, cap, len, pts, ip, M, fi, cc)"
  obtains c where "r = Inr (oks, c)" and "state c = st" and "residue_cnt c = n"
    and "residue_cap c = cap" and "map_option length (residue c) = len"
    and "residue_points c = pts" and "interim_point c = ip" and "rfm c = M"
    and "full_inc c = fi" and "class_count c = cc"
  using assms by (cases r) (auto simp: ctx_view_def rfm_counts_eq)

section \<open>What each function changes\<close>

declare RFC_cycle_find_4ptm_while.simps [simp del]

lemma process_counts_frame:
  assumes "RFC_cycle_process_counts H ctx from to flags = Inr ctx'"
  shows "ctx' = ctx\<lparr>pseudo_damage := pseudo_damage ctx', rfm := rfm ctx'\<rparr>"
  using assms
  by (auto simp: RFC_cycle_process_counts_def thenR_def assert_c_def Let_def
           split: sum.splits if_splits option.splits prod.splits)

lemma remove_inner_points_frame:
  assumes "remove_inner_points ctx idx = Inr ctx'"
  shows "ctx' = ctx\<lparr>residue := residue ctx', residue_cnt := residue_cnt ctx'\<rparr>"
  using assms
  by (auto simp: remove_inner_points_def thenR_def residue_at_def residue_set_def
           split: sum.splits if_splits option.splits)

lemma body_frame:
  assumes "RFC_cycle_find_4ptm_body H ctx flags = Inr (Some ctx')"
  shows "ctx' = ctx\<lparr>pseudo_damage := pseudo_damage ctx', rfm := rfm ctx',
                     residue := residue ctx', residue_cnt := residue_cnt ctx'\<rparr>"
proof -
  from assms obtain f t c1 where pc: "RFC_cycle_process_counts H ctx f t flags = Inr c1"
    and rm: "remove_inner_points c1 (residue_cnt ctx - 4) = Inr ctx'"
    by (auto simp: RFC_cycle_find_4ptm_body_def Let_def split: if_splits elim!: thenR_InrE)
  show ?thesis
    using process_counts_frame [OF pc] remove_inner_points_frame [OF rm]
    by (cases ctx; cases c1; cases ctx'; simp)
qed

lemma while_frame:
  "RFC_cycle_find_4ptm_while H ctx flags = Inr ctx' \<Longrightarrow>
     ctx' = ctx\<lparr>pseudo_damage := pseudo_damage ctx', rfm := rfm ctx',
                residue := residue ctx', residue_cnt := residue_cnt ctx'\<rparr>"
proof (induction H ctx flags rule: RFC_cycle_find_4ptm_while.induct)
  case (1 H ctx flags)
  show ?case
  proof (cases "4 \<le> residue_cnt ctx")
    case False
    with "1.prems" have "ctx' = ctx"
      by (simp add: RFC_cycle_find_4ptm_while.simps [of H ctx flags])
    then show ?thesis by simp
  next
    case True
    show ?thesis
    proof (cases "RFC_cycle_find_4ptm_body H ctx flags")
      case (Inl e)
      with True "1.prems" show ?thesis
        by (simp add: RFC_cycle_find_4ptm_while.simps [of H ctx flags])
    next
      case (Inr r)
      show ?thesis
      proof (cases r)
        case None
        with True Inr "1.prems" have "ctx' = ctx"
          by (simp add: RFC_cycle_find_4ptm_while.simps [of H ctx flags])
        then show ?thesis by simp
      next
        case (Some c1)
        with True Inr "1.prems" have w: "RFC_cycle_find_4ptm_while H c1 flags = Inr ctx'"
          by (simp add: RFC_cycle_find_4ptm_while.simps [of H ctx flags])
        from Inr Some have b: "RFC_cycle_find_4ptm_body H ctx flags = Inr (Some c1)" by simp
        show ?thesis
          using "1.IH" [OF True Inr Some w] body_frame [OF b]
          by (cases ctx; cases c1; cases ctx'; simp)
      qed
    qed
  qed
qed


lemma cycle_find_frame:
  assumes "RFC_cycle_find_4ptm H ctx flags = Inr ctx'"
  shows "ctx' = ctx\<lparr>pseudo_damage := pseudo_damage ctx', rfm := rfm ctx',
                     residue := residue ctx', residue_cnt := residue_cnt ctx'\<rparr>"
  using assms unfolding RFC_cycle_find_4ptm_def
  by (elim thenR_InrE) (rule while_frame)

declare residue_shift.simps [simp del]

lemma residue_shift_frame:
  "residue_shift ctx from to end = Inr ctx' \<Longrightarrow> ctx' = ctx\<lparr>residue := residue ctx'\<rparr>"
proof (induction ctx "from" to "end" rule: residue_shift.induct)
  case (1 ctx "from" to "end")
  show ?case
  proof (cases "from < end")
    case False
    with "1.prems" have "ctx' = ctx" by (simp add: residue_shift.simps [of ctx "from" to "end"])
    then show ?thesis by simp
  next
    case True
    with "1.prems" obtain R where R: "residue ctx = Some R"
      and b: "from < length R \<and> to < length R"
      and r: "residue_shift (ctx\<lparr>residue := Some (R[to := R ! from])\<rparr>) (Suc from) (Suc to) end = Inr ctx'"
      by (auto simp: residue_shift.simps [of ctx "from" to "end"] split: option.splits if_splits)
    from "1.IH" [OF True R b r] show ?thesis
      by (cases ctx; cases ctx'; simp)
  qed
qed

lemma remove_item_frame:
  assumes "RFC_residue_remove_item H ctx index count = Inr ctx'"
  shows "ctx' = ctx\<lparr>residue := residue ctx', residue_cnt := residue_cnt ctx'\<rparr>"
proof -
  from assms obtain c1 where sh: "residue_shift ctx (index + count) index
        (if state ctx = RFC_STATE_BUSY_INTERIM then residue_cnt ctx + 1 else residue_cnt ctx) = Inr c1"
    and c': "ctx' = c1\<lparr>residue_cnt := (residue_cnt c1 + (SIZE_MAX H + 1) - count) mod (SIZE_MAX H + 1)\<rparr>"
    by (auto simp: RFC_residue_remove_item_def Let_def elim!: thenR_InrE)
  show ?thesis
    using residue_shift_frame [OF sh] c' by (cases ctx; cases c1; cases ctx'; simp)
qed

lemma filter_frame:
  assumes "RFC_feed_filter_pt H ctx pt = Inr (r, ctx')"
  shows "ctx' = ctx\<lparr>state := state ctx', residue := residue ctx', residue_cnt := residue_cnt ctx',
                     internal_slope := internal_slope ctx',
                     internal_extrema0 := internal_extrema0 ctx',
                     internal_extrema1 := internal_extrema1 ctx'\<rparr> \<and>
         (state ctx' = state ctx \<or> state ctx' = RFC_STATE_BUSY \<or> state ctx' = RFC_STATE_BUSY_INTERIM)"
  using assms
  by (auto simp: RFC_feed_filter_pt_def filter_append_def thenR_def Let_def residue_set_def
                 residue_at_def assert_c_def
           split: sum.splits if_splits option.splits prod.splits)

lemma feed_once_cases:
  assumes "RFC_feed_once H ctx pt flags = Inr (ok, ctx')"
  obtains r c1 where "ok" and "RFC_feed_filter_pt H ctx pt = Inr (r, c1)"
    and "ctx' = c1 \<or> RFC_cycle_find_4ptm H c1 flags = Inr ctx' \<or>
         RFC_residue_remove_item H c1 0 1 = Inr ctx'"
  using assms
  by (auto simp: RFC_feed_once_def split: if_splits prod.splits elim!: thenR_InrE)

lemma feed_once_frame:
  assumes "RFC_feed_once H ctx pt flags = Inr (ok, ctx')"
  shows "ctx' = ctx\<lparr>state := state ctx', residue := residue ctx', residue_cnt := residue_cnt ctx',
                     rfm := rfm ctx', pseudo_damage := pseudo_damage ctx',
                     internal_slope := internal_slope ctx',
                     internal_extrema0 := internal_extrema0 ctx',
                     internal_extrema1 := internal_extrema1 ctx'\<rparr>"
    and "state ctx' = state ctx \<or> state ctx' = RFC_STATE_BUSY \<or> state ctx' = RFC_STATE_BUSY_INTERIM"
    and "ok"
proof -
  from assms obtain r c1 where ok: "ok" and f: "RFC_feed_filter_pt H ctx pt = Inr (r, c1)"
    and d: "ctx' = c1 \<or> RFC_cycle_find_4ptm H c1 flags = Inr ctx' \<or>
         RFC_residue_remove_item H c1 0 1 = Inr ctx'"
    by (rule feed_once_cases)
  note ff = filter_frame [OF f]
  from d have "ctx' = c1\<lparr>pseudo_damage := pseudo_damage ctx', rfm := rfm ctx',
                     residue := residue ctx', residue_cnt := residue_cnt ctx'\<rparr>"
  proof (elim disjE)
    assume "ctx' = c1" then show ?thesis by simp
  next
    assume "RFC_cycle_find_4ptm H c1 flags = Inr ctx'"
    from cycle_find_frame [OF this] show ?thesis .
  next
    assume "RFC_residue_remove_item H c1 0 1 = Inr ctx'"
    from remove_item_frame [OF this] show ?thesis by (cases c1; cases ctx'; simp)
  qed
  with ff show "ctx' = ctx\<lparr>state := state ctx', residue := residue ctx', residue_cnt := residue_cnt ctx',
                     rfm := rfm ctx', pseudo_damage := pseudo_damage ctx',
                     internal_slope := internal_slope ctx',
                     internal_extrema0 := internal_extrema0 ctx',
                     internal_extrema1 := internal_extrema1 ctx'\<rparr>"
    and "state ctx' = state ctx \<or> state ctx' = RFC_STATE_BUSY \<or> state ctx' = RFC_STATE_BUSY_INTERIM"
    by (cases ctx; cases c1; cases ctx'; simp)+
  show "ok" by (rule ok)
qed

lemma feeding_iff:
  "feeding ctx \<longleftrightarrow> \<not> (state_num (state ctx) < state_num RFC_STATE_INIT \<or>
              state_num RFC_STATE_FINISHED \<le> state_num (state ctx))"
  by (cases "state ctx") (simp_all add: feeding_def)

lemma feed_loop_frame:
  "RFC_feed_loop H ctx data n = Inr (ok, ctx') \<Longrightarrow>
     ok \<and>
     ctx' = ctx\<lparr>state := state ctx', residue := residue ctx', residue_cnt := residue_cnt ctx',
                 rfm := rfm ctx', pseudo_damage := pseudo_damage ctx',
                 internal_slope := internal_slope ctx',
                 internal_extrema0 := internal_extrema0 ctx',
                 internal_extrema1 := internal_extrema1 ctx',
                 internal_pos := internal_pos ctx'\<rparr> \<and>
     (state ctx' = state ctx \<or> state ctx' = RFC_STATE_BUSY \<or> state ctx' = RFC_STATE_BUSY_INTERIM)"
proof (induction data arbitrary: ctx n)
  case Nil
  then show ?case by (auto split: if_splits)
next
  case (Cons x data)
  show ?case
  proof (cases "n = 0")
    case True
    with Cons.prems show ?thesis by auto
  next
    case False
    define c0 where "c0 = ctx\<lparr>internal_pos := (internal_pos ctx + 1) mod (SIZE_MAX H + 1)\<rparr>"
    from Cons.prems False obtain q ok1 c1 where
      o: "RFC_feed_once H c0 \<lparr>val = x, cls = q, pos = internal_pos c0\<rparr> (internal_flags c0) = Inr (ok1, c1)"
      and l': "(if \<not> ok1 then Inr (False, c1) else RFC_feed_loop H c1 data (n - 1)) = Inr (ok, ctx')"
      by (auto simp: Let_def c0_def split: sum.splits elim!: thenR_InrE)
    from feed_once_frame(3) [OF o] l' have l: "RFC_feed_loop H c1 data (n - 1) = Inr (ok, ctx')"
      by simp
    note f1 = feed_once_frame [OF o]
    note f2 = Cons.IH [OF l]
    from f2 have "ok" by simp
    moreover have "ctx' = ctx\<lparr>state := state ctx', residue := residue ctx', residue_cnt := residue_cnt ctx',
                 rfm := rfm ctx', pseudo_damage := pseudo_damage ctx',
                 internal_slope := internal_slope ctx',
                 internal_extrema0 := internal_extrema0 ctx',
                 internal_extrema1 := internal_extrema1 ctx',
                 internal_pos := internal_pos ctx'\<rparr>"
      using f1(1) f2 c0_def by (cases ctx; cases c0; cases c1; cases ctx'; simp)
    moreover have "state ctx' = state ctx \<or> state ctx' = RFC_STATE_BUSY \<or> state ctx' = RFC_STATE_BUSY_INTERIM"
      using f1(2) f2 by (auto simp: c0_def)
    ultimately show ?thesis by simp
  qed
qed

lemma feed_loop_append:
  "RFC_feed_loop H ctx (a @ b) (length a + m) =
     thenR (RFC_feed_loop H ctx a (length a)) (\<lambda>(ok, c). RFC_feed_loop H c b m)"
proof (induction a arbitrary: ctx)
  case Nil
  then show ?case by simp
next
  case (Cons x a)
  show ?case
  proof (cases "QUANTIZE H ctx x")
    case (Inl e)
    then show ?thesis by simp
  next
    case (Inr q)
    define c0 where "c0 = ctx\<lparr>internal_pos := (internal_pos ctx + 1) mod (SIZE_MAX H + 1)\<rparr>"
    show ?thesis
    proof (cases "RFC_feed_once H c0 \<lparr>val = x, cls = q, pos = internal_pos c0\<rparr> (internal_flags c0)")
      case (Inl e)
      with Inr show ?thesis by (simp add: Let_def c0_def)
    next
      case o: (Inr r)
      obtain ok1 c1 where r: "r = (ok1, c1)" by (cases r)
      from feed_once_frame(3) [OF o [unfolded r]] have "ok1" .
      with Inr o r show ?thesis by (simp add: Let_def c0_def Cons.IH)
    qed
  qed
qed

lemma feed_append:
  "RFC_feed H ctx (Some (a @ b)) (length (a @ b)) =
     thenR (RFC_feed H ctx (Some a) (length a)) (\<lambda>(ok, c). RFC_feed H c (Some b) (length b))"
proof (cases "version ctx \<noteq> SIZEOF_CTX H")
  case True
  then show ?thesis
    by (auto simp: RFC_feed_def version_mismatch_def assert_c_def)
next
  case v: False
  show ?thesis
  proof (cases "feeding ctx")
    case False
    with v show ?thesis
      by (simp add: RFC_feed_def feeding_iff)
  next
    case True
    have "thenR (RFC_feed_loop H ctx a (length a)) (\<lambda>(ok, c). RFC_feed_loop H c b (length b))
        = thenR (RFC_feed_loop H ctx a (length a)) (\<lambda>(ok, c). RFC_feed H c (Some b) (length b))"
    proof (rule thenR_cong [OF refl])
      fix x assume l: "RFC_feed_loop H ctx a (length a) = Inr x"
      obtain ok c where x: "x = (ok, c)" by (cases x)
      from feed_loop_frame [OF l [unfolded x]]
      have "version c = version ctx" and "feeding c"
        using True by (auto simp: feeding_def dest: arg_cong [where f = version])
      with v show "(case x of (ok, c) \<Rightarrow> RFC_feed_loop H c b (length b)) =
            (case x of (ok, c) \<Rightarrow> RFC_feed H c (Some b) (length b))"
        by (simp add: x RFC_feed_def feeding_iff)
    qed
    with v True show ?thesis
      by (simp add: RFC_feed_def feeding_iff feed_loop_append)
  qed
qed

lemma rfc_run_length:
  "rfc_run H ctx cs = Inr (oks, ctx') \<Longrightarrow> length oks = length cs"
proof (induction cs arbitrary: ctx oks)
  case Nil
  then show ?case by simp
next
  case (Cons c cs)
  then show ?case
    by (auto elim!: thenR_InrE split: prod.splits)
qed

lemma feed_partition:
  "chunks \<noteq> [] \<Longrightarrow>
     map_sum id (map_prod last id) (rfc_run H ctx (feed_calls chunks)) =
       RFC_feed H ctx (Some (concat chunks)) (length (concat chunks))"
proof (induction chunks arbitrary: ctx)
  case Nil
  then show ?case by simp
next
  case (Cons a chunks)
  show ?case
  proof (cases "chunks = []")
    case True
    then show ?thesis
      by (cases "RFC_feed H ctx (Some a) (length a)") (auto simp: feed_calls_def)
  next
    case False
    have "map_sum id (map_prod last id) (rfc_run H ctx (feed_calls (a # chunks))) =
          thenR (RFC_feed H ctx (Some a) (length a)) (\<lambda>(ok, c).
            map_sum id (map_prod last id) (rfc_run H c (feed_calls chunks)))"
    proof (cases "RFC_feed H ctx (Some a) (length a)")
      case (Inl e)
      then show ?thesis by (simp add: feed_calls_def)
    next
      case (Inr r)
      obtain ok c where r: "r = (ok, c)" by (cases r)
      show ?thesis
      proof (cases "rfc_run H c (feed_calls chunks)")
        case (Inl e)
        with Inr r show ?thesis by (simp add: feed_calls_def)
      next
        case rr: (Inr q)
        obtain oks c' where q: "q = (oks, c')" by (cases q)
        from rfc_run_length [OF rr [unfolded q]] False have "oks \<noteq> []"
          by (auto simp: feed_calls_def)
        with Inr r rr q show ?thesis by (simp add: feed_calls_def)
      qed
    qed
    also have "\<dots> = thenR (RFC_feed H ctx (Some a) (length a)) (\<lambda>(ok, c).
            RFC_feed H c (Some (concat chunks)) (length (concat chunks)))"
      by (rule thenR_cong [OF refl]) (auto simp: Cons.IH [OF False])
    also have "\<dots> = RFC_feed H ctx (Some (concat (a # chunks))) (length (concat (a # chunks)))"
      using feed_append [of H ctx a "concat chunks"] by simp
    finally show ?thesis .
  qed
qed

lemma cycle_find_fields:
  assumes "RFC_cycle_find_4ptm H ctx flags = Inr c"
  shows "state c = state ctx" and "version c = version ctx" and "class_count c = class_count ctx"
    and "error c = error ctx" and "internal_flags c = internal_flags ctx"
  by (subst cycle_find_frame [OF assms], simp)+

lemma RFC_finalize_eq:
  assumes v: "version ctx = SIZEOF_CTX H"
    and st: "state ctx \<in> {RFC_STATE_INIT, RFC_STATE_BUSY, RFC_STATE_BUSY_INTERIM}"
    and m: "m = RFC_RES_NONE H \<or> m = RFC_RES_IGNORE H"
  shows "RFC_finalize H ctx m =
           thenR (if state ctx = RFC_STATE_BUSY_INTERIM
                  then RFC_cycle_find_4ptm H
                         (ctx\<lparr>residue_cnt := residue_cnt ctx + 1, state := RFC_STATE_BUSY\<rparr>)
                         (internal_flags ctx)
                  else Inr ctx)
             (\<lambda>c. Inr (True, c\<lparr>residue_cnt := (if class_count ctx = 0 then 0 else residue_cnt c),
                              state := RFC_STATE_FINISHED\<rparr>))"
proof (cases "state ctx = RFC_STATE_BUSY_INTERIM")
  case False
  with v st m show ?thesis
    by (auto simp: RFC_finalize_def RFC_finalize_res_ignore_def RFC_feed_finalize_def
                   assert_c_def state_within_def Let_def)
next
  case True
  let ?c1 = "ctx\<lparr>residue_cnt := residue_cnt ctx + 1, state := RFC_STATE_BUSY\<rparr>"
  have "RFC_finalize H ctx m =
          thenR (RFC_cycle_find_4ptm H ?c1 (internal_flags ctx)) (\<lambda>c.
            thenR (assert_c H (state (c\<lparr>state := RFC_STATE_FINALIZE\<rparr>) = RFC_STATE_FINALIZE)) (\<lambda>_.
              Inr (True, (if class_count c = 0 then c\<lparr>state := RFC_STATE_FINALIZE, residue_cnt := 0\<rparr>
                          else c\<lparr>state := RFC_STATE_FINALIZE\<rparr>)\<lparr>state := RFC_STATE_FINISHED\<rparr>)))"
    using v True m
    by (cases "RFC_cycle_find_4ptm H ?c1 (internal_flags ctx)")
       (auto simp: RFC_finalize_def RFC_finalize_res_ignore_def RFC_feed_finalize_def
                   assert_c_def state_within_def Let_def)
  also have "\<dots> = thenR (RFC_cycle_find_4ptm H ?c1 (internal_flags ctx))
             (\<lambda>c. Inr (True, c\<lparr>residue_cnt := (if class_count ctx = 0 then 0 else residue_cnt c),
                              state := RFC_STATE_FINISHED\<rparr>))"
  proof (rule thenR_cong [OF refl])
    fix c assume "RFC_cycle_find_4ptm H ?c1 (internal_flags ctx) = Inr c"
    from cycle_find_fields(3) [OF this] have "class_count c = class_count ctx" by simp
    then show "thenR (assert_c H (state (c\<lparr>state := RFC_STATE_FINALIZE\<rparr>) = RFC_STATE_FINALIZE)) (\<lambda>_.
              Inr (True, (if class_count c = 0 then c\<lparr>state := RFC_STATE_FINALIZE, residue_cnt := 0\<rparr>
                          else c\<lparr>state := RFC_STATE_FINALIZE\<rparr>)\<lparr>state := RFC_STATE_FINISHED\<rparr>)) =
          Inr (True, c\<lparr>residue_cnt := (if class_count ctx = 0 then 0 else residue_cnt c),
                              state := RFC_STATE_FINISHED\<rparr>)"
      by (cases c) (simp add: assert_c_def)
  qed
  finally show ?thesis using True by simp
qed

lemma RFC_feed_rejected:
  assumes "version ctx = SIZEOF_CTX H" and "\<not> feeding ctx"
  shows "RFC_feed H ctx data n = Inr (False, ctx)"
  using assms by (simp add: RFC_feed_def feeding_iff)

lemma RFC_feed_state:
  assumes "RFC_feed H ctx data n = Inr (ok, c')"
  shows "state c' = state ctx \<or> state c' = RFC_STATE_BUSY \<or> state c' = RFC_STATE_BUSY_INTERIM"
    and "version ctx = SIZEOF_CTX H \<Longrightarrow> error c' = error ctx"
proof -
  have "(state c' = state ctx \<or> state c' = RFC_STATE_BUSY \<or> state c' = RFC_STATE_BUSY_INTERIM) \<and>
        (version ctx = SIZEOF_CTX H \<longrightarrow> error c' = error ctx)"
  proof (cases "(n \<noteq> 0 \<and> data = None) \<or> version ctx \<noteq> SIZEOF_CTX H \<or> \<not> feeding ctx")
    case True
    with assms show ?thesis
      by (auto simp: RFC_feed_def feeding_iff version_mismatch_def elim!: thenR_InrE split: if_splits)
  next
    case False
    with assms have l: "RFC_feed_loop H ctx (case data of None \<Rightarrow> [] | Some xs \<Rightarrow> xs) n = Inr (ok, c')"
      by (auto simp: RFC_feed_def feeding_iff split: if_splits)
    from feed_loop_frame [OF l] have
      f: "c' = ctx\<lparr>state := state c', residue := residue c', residue_cnt := residue_cnt c',
                 rfm := rfm c', pseudo_damage := pseudo_damage c',
                 internal_slope := internal_slope c',
                 internal_extrema0 := internal_extrema0 c',
                 internal_extrema1 := internal_extrema1 c',
                 internal_pos := internal_pos c'\<rparr>"
      and s: "state c' = state ctx \<or> state c' = RFC_STATE_BUSY \<or> state c' = RFC_STATE_BUSY_INTERIM"
      by simp_all
    have "error c' = error ctx" by (subst f) simp
    with s show ?thesis by simp
  qed
  then show "state c' = state ctx \<or> state c' = RFC_STATE_BUSY \<or> state c' = RFC_STATE_BUSY_INTERIM"
    and "version ctx = SIZEOF_CTX H \<Longrightarrow> error c' = error ctx" by simp_all
qed

lemma counts_over_limit:
  assumes "rfm ctx = Some M"
    and "QUANTIZE H ctx (val from) = Inr qf" and "QUANTIZE H ctx (val to) = Inr qt"
    and "clamp_class H ctx qf \<noteq> clamp_class H ctx qt"
    and "flags AND RFC_FLAGS_COUNT_RFM H \<noteq> 0"
    and "idx = (class_count ctx * clamp_class H ctx qf + clamp_class H ctx qt) mod (UINT_MAX H + 1)"
    and "idx < length M" and "RFC_COUNTS_LIMIT H < M ! idx"
  shows "if NDEBUG H
         then \<exists>c'. RFC_cycle_process_counts H ctx from to flags = Inr c' \<and>
                state c' = state ctx \<and> error c' = error ctx \<and>
                rfm c' = Some (M[idx := (M ! idx + curr_inc ctx) mod (RFC_COUNTS_MAX H + 1)])
         else RFC_cycle_process_counts H ctx from to flags = Inl AssertionFailed"
  using assms
  by (auto simp: RFC_cycle_process_counts_def RFC_damage_calc_def RFC_damage_calc_amplitude_def
                 assert_c_def Let_def)

section \<open>Lifting a property of the counting step to the public functions\<close>

lemma lift_frame:
  assumes upd: "\<And>c st R n sl e0 e1 p er.
          P c (c\<lparr>state := st, residue := R, residue_cnt := n, internal_slope := sl,
                 internal_extrema0 := e0, internal_extrema1 := e1, internal_pos := p,
                 error := er\<rparr>)"
    and f: "c' = c\<lparr>state := state c', residue := residue c', residue_cnt := residue_cnt c',
                   internal_slope := internal_slope c', internal_extrema0 := internal_extrema0 c',
                   internal_extrema1 := internal_extrema1 c', internal_pos := internal_pos c',
                   error := error c'\<rparr>"
  shows "P c c'"
  by (subst f) (rule upd)

lemma lift_body:
  assumes trans: "\<And>a b c. P a b \<Longrightarrow> P b c \<Longrightarrow> P a c"
    and pc: "\<And>c f t fl c'. RFC_cycle_process_counts H c f t fl = Inr c' \<Longrightarrow> P c c'"
    and upd: "\<And>c st R n sl e0 e1 p er.
          P c (c\<lparr>state := st, residue := R, residue_cnt := n, internal_slope := sl,
                 internal_extrema0 := e0, internal_extrema1 := e1, internal_pos := p,
                 error := er\<rparr>)"
    and b: "RFC_cycle_find_4ptm_body H ctx flags = Inr (Some ctx')"
  shows "P ctx ctx'"
proof -
  from b obtain f t c1 where p: "RFC_cycle_process_counts H ctx f t flags = Inr c1"
    and rm: "remove_inner_points c1 (residue_cnt ctx - 4) = Inr ctx'"
    by (auto simp: RFC_cycle_find_4ptm_body_def Let_def split: if_splits elim!: thenR_InrE)
  have "P c1 ctx'"
    using remove_inner_points_frame [OF rm]
    by (intro lift_frame [of P, OF upd]) (cases c1; cases ctx'; simp)
  with pc [OF p] show ?thesis by (rule trans)
qed

lemma lift_while:
  assumes refl: "\<And>c. P c c"
    and trans: "\<And>a b c. P a b \<Longrightarrow> P b c \<Longrightarrow> P a c"
    and upd: "\<And>c st R n sl e0 e1 p er.
          P c (c\<lparr>state := st, residue := R, residue_cnt := n, internal_slope := sl,
                 internal_extrema0 := e0, internal_extrema1 := e1, internal_pos := p,
                 error := er\<rparr>)"
  shows "(\<And>c f t fl c'. RFC_cycle_process_counts H c f t fl = Inr c' \<Longrightarrow> P c c') \<Longrightarrow>
         RFC_cycle_find_4ptm_while H ctx flags = Inr ctx' \<Longrightarrow> P ctx ctx'"
proof (induction H ctx flags rule: RFC_cycle_find_4ptm_while.induct)
  case (1 H ctx flags)
  note pc = "1.prems"(1) and run = "1.prems"(2)
  show ?case
  proof (cases "4 \<le> residue_cnt ctx")
    case False
    with run have "ctx' = ctx"
      by (simp add: RFC_cycle_find_4ptm_while.simps [of H ctx flags])
    then show ?thesis by (simp add: refl)
  next
    case True
    show ?thesis
    proof (cases "RFC_cycle_find_4ptm_body H ctx flags")
      case (Inl e)
      with True run show ?thesis
        by (simp add: RFC_cycle_find_4ptm_while.simps [of H ctx flags])
    next
      case (Inr r)
      show ?thesis
      proof (cases r)
        case None
        with True Inr run have "ctx' = ctx"
          by (simp add: RFC_cycle_find_4ptm_while.simps [of H ctx flags])
        then show ?thesis by (simp add: refl)
      next
        case (Some c1)
        with True Inr run have w: "RFC_cycle_find_4ptm_while H c1 flags = Inr ctx'"
          by (simp add: RFC_cycle_find_4ptm_while.simps [of H ctx flags])
        from Inr Some have b: "RFC_cycle_find_4ptm_body H ctx flags = Inr (Some c1)" by simp
        have "P ctx c1"
          by (rule lift_body [of P H, OF trans pc upd b])
        moreover have "P c1 ctx'"
          by (rule "1.IH" [OF True Inr Some pc w])
        ultimately show ?thesis by (rule trans)
      qed
    qed
  qed
qed

lemma lift_feed_once:
  assumes refl: "\<And>c. P c c"
    and trans: "\<And>a b c. P a b \<Longrightarrow> P b c \<Longrightarrow> P a c"
    and pc: "\<And>c f t fl c'. RFC_cycle_process_counts H c f t fl = Inr c' \<Longrightarrow> P c c'"
    and upd: "\<And>c st R n sl e0 e1 p er.
          P c (c\<lparr>state := st, residue := R, residue_cnt := n, internal_slope := sl,
                 internal_extrema0 := e0, internal_extrema1 := e1, internal_pos := p,
                 error := er\<rparr>)"
    and run: "RFC_feed_once H ctx pt flags = Inr (ok, ctx')"
  shows "P ctx ctx'"
proof -
  from run obtain r c1 where f: "RFC_feed_filter_pt H ctx pt = Inr (r, c1)"
    and d: "ctx' = c1 \<or> RFC_cycle_find_4ptm H c1 flags = Inr ctx' \<or>
         RFC_residue_remove_item H c1 0 1 = Inr ctx'"
    by (rule feed_once_cases)
  have 1: "P ctx c1"
    using filter_frame [OF f]
    by (intro lift_frame [of P, OF upd]) (cases ctx; cases c1; simp)
  from d have 2: "P c1 ctx'"
  proof (elim disjE)
    assume "ctx' = c1" then show ?thesis by (simp add: refl)
  next
    assume "RFC_cycle_find_4ptm H c1 flags = Inr ctx'"
    then have w: "RFC_cycle_find_4ptm_while H c1 flags = Inr ctx'"
      by (auto simp: RFC_cycle_find_4ptm_def elim!: thenR_InrE)
    show ?thesis
      by (rule lift_while [of P H, OF refl trans upd pc w])
  next
    assume "RFC_residue_remove_item H c1 0 1 = Inr ctx'"
    from remove_item_frame [OF this] show ?thesis
      by (intro lift_frame [of P, OF upd]) (cases c1; cases ctx'; simp)
  qed
  from 1 2 show ?thesis by (rule trans)
qed

lemma lift_feed_loop:
  assumes refl: "\<And>c. P c c"
    and trans: "\<And>a b c. P a b \<Longrightarrow> P b c \<Longrightarrow> P a c"
    and pc: "\<And>c f t fl c'. RFC_cycle_process_counts H c f t fl = Inr c' \<Longrightarrow> P c c'"
    and upd: "\<And>c st R n sl e0 e1 p er.
          P c (c\<lparr>state := st, residue := R, residue_cnt := n, internal_slope := sl,
                 internal_extrema0 := e0, internal_extrema1 := e1, internal_pos := p,
                 error := er\<rparr>)"
  shows "RFC_feed_loop H ctx data n = Inr (ok, ctx') \<Longrightarrow> P ctx ctx'"
proof (induction data arbitrary: ctx n)
  case Nil
  then show ?case by (auto simp: refl split: if_splits)
next
  case (Cons x data)
  show ?case
  proof (cases "n = 0")
    case True
    with Cons.prems show ?thesis by (auto simp: refl)
  next
    case False
    define c0 where "c0 = ctx\<lparr>internal_pos := (internal_pos ctx + 1) mod (SIZE_MAX H + 1)\<rparr>"
    from Cons.prems False obtain q ok1 c1 where
      o: "RFC_feed_once H c0 \<lparr>val = x, cls = q, pos = internal_pos c0\<rparr> (internal_flags c0) = Inr (ok1, c1)"
      and l': "(if \<not> ok1 then Inr (False, c1) else RFC_feed_loop H c1 data (n - 1)) = Inr (ok, ctx')"
      by (auto simp: Let_def c0_def split: sum.splits elim!: thenR_InrE)
    from feed_once_frame(3) [OF o] l' have l: "RFC_feed_loop H c1 data (n - 1) = Inr (ok, ctx')"
      by simp
    have "P ctx c0"
      unfolding c0_def by (intro lift_frame [of P, OF upd]) simp
    moreover have "P c0 c1"
      by (rule lift_feed_once [of P H, OF refl trans pc upd o])
    moreover have "P c1 ctx'"
      by (rule Cons.IH [OF l])
    ultimately show ?thesis by (blast intro: trans)
  qed
qed

lemma lift_feed:
  assumes refl: "\<And>c. P c c"
    and trans: "\<And>a b c. P a b \<Longrightarrow> P b c \<Longrightarrow> P a c"
    and pc: "\<And>c f t fl c'. RFC_cycle_process_counts H c f t fl = Inr c' \<Longrightarrow> P c c'"
    and upd: "\<And>c st R n sl e0 e1 p er.
          P c (c\<lparr>state := st, residue := R, residue_cnt := n, internal_slope := sl,
                 internal_extrema0 := e0, internal_extrema1 := e1, internal_pos := p,
                 error := er\<rparr>)"
    and run: "RFC_feed H ctx data n = Inr (ok, ctx')"
  shows "P ctx ctx'"
proof (cases "(n \<noteq> 0 \<and> data = None) \<or> version ctx \<noteq> SIZEOF_CTX H \<or> \<not> feeding ctx")
  case True
  with run have "ctx' = ctx \<or> ctx' = ctx\<lparr>error := RFC_ERROR_INVARG\<rparr>"
    by (auto simp: RFC_feed_def feeding_iff version_mismatch_def elim!: thenR_InrE split: if_splits)
  then show ?thesis
    by (elim disjE) (simp add: refl, intro lift_frame [of P, OF upd], simp)
next
  case False
  with run have l: "RFC_feed_loop H ctx (case data of None \<Rightarrow> [] | Some xs \<Rightarrow> xs) n = Inr (ok, ctx')"
    by (auto simp: RFC_feed_def feeding_iff split: if_splits)
  show ?thesis
    by (rule lift_feed_loop [of P H, OF refl trans pc upd l])
qed

lemma lift_feed_finalize:
  assumes refl: "\<And>c. P c c"
    and trans: "\<And>a b c. P a b \<Longrightarrow> P b c \<Longrightarrow> P a c"
    and pc: "\<And>c f t fl c'. RFC_cycle_process_counts H c f t fl = Inr c' \<Longrightarrow> P c c'"
    and upd: "\<And>c st R n sl e0 e1 p er.
          P c (c\<lparr>state := st, residue := R, residue_cnt := n, internal_slope := sl,
                 internal_extrema0 := e0, internal_extrema1 := e1, internal_pos := p,
                 error := er\<rparr>)"
    and run: "RFC_feed_finalize H ctx = Inr (ok, ctx')"
  shows "P ctx ctx'"
proof -
  let ?c1 = "ctx\<lparr>residue_cnt := residue_cnt ctx + 1, state := RFC_STATE_BUSY\<rparr>"
  from run consider "ctx' = ctx" | "ctx' = ctx\<lparr>state := RFC_STATE_FINALIZE\<rparr>"
    | c2 where "RFC_cycle_find_4ptm H ?c1 (internal_flags ctx) = Inr c2"
        "ctx' = c2\<lparr>state := RFC_STATE_FINALIZE\<rparr>"
    by (auto simp: RFC_feed_finalize_def Let_def elim!: thenR_InrE split: if_splits)
  then show ?thesis
  proof cases
    case 1
    then show ?thesis by (simp add: refl)
  next
    case 2
    then show ?thesis by (intro lift_frame [of P, OF upd]) simp
  next
    case 3
    have a: "P ctx ?c1" by (intro lift_frame [of P, OF upd]) simp
    from 3(1) have w: "RFC_cycle_find_4ptm_while H ?c1 (internal_flags ctx) = Inr c2"
      by (auto simp: RFC_cycle_find_4ptm_def elim!: thenR_InrE)
    have b: "P ?c1 c2"
      by (rule lift_while [of P H, OF refl trans upd pc w])
    have c: "P c2 ctx'" using 3(2) by (intro lift_frame [of P, OF upd]) simp
    from a b c show ?thesis by (blast intro: trans)
  qed
qed

lemma lift_finalize:
  assumes refl: "\<And>c. P c c"
    and trans: "\<And>a b c. P a b \<Longrightarrow> P b c \<Longrightarrow> P a c"
    and pc: "\<And>c f t fl c'. RFC_cycle_process_counts H c f t fl = Inr c' \<Longrightarrow> P c c'"
    and upd: "\<And>c st R n sl e0 e1 p er.
          P c (c\<lparr>state := st, residue := R, residue_cnt := n, internal_slope := sl,
                 internal_extrema0 := e0, internal_extrema1 := e1, internal_pos := p,
                 error := er\<rparr>)"
    and run: "RFC_finalize H ctx m = Inr (ok, ctx')"
  shows "P ctx ctx'"
proof (cases "version ctx \<noteq> SIZEOF_CTX H \<or> state_num (state ctx) < state_num RFC_STATE_INIT \<or>
              state_num RFC_STATE_FINISHED \<le> state_num (state ctx)")
  case True
  with run have "ctx' = ctx \<or> ctx' = ctx\<lparr>error := RFC_ERROR_INVARG\<rparr>"
    by (auto simp: RFC_finalize_def version_mismatch_def elim!: thenR_InrE split: if_splits)
  then show ?thesis
  proof
    assume "ctx' = ctx" then show ?thesis by (simp add: refl)
  next
    assume "ctx' = ctx\<lparr>error := RFC_ERROR_INVARG\<rparr>"
    then show ?thesis by (intro lift_frame [of P, OF upd]) simp
  qed
next
  case False
  with run obtain r where
    r: "(if m = RFC_RES_NONE H \<or> m = RFC_RES_IGNORE H
         then RFC_finalize_res_ignore H ctx (internal_flags ctx)
         else thenR (assert_c H False) (\<lambda>_. Inr (False, ctx\<lparr>error := RFC_ERROR_INVARG\<rparr>))) = Inr r"
    and k: "thenR (assert_c H (state (snd r) = RFC_STATE_FINALIZE)) (\<lambda>_.
        let c = (if class_count (snd r) = 0 then (snd r)\<lparr>residue_cnt := 0\<rparr> else snd r) in
        Inr (fst r, c\<lparr>state := (if fst r then RFC_STATE_FINISHED else RFC_STATE_ERROR)\<rparr>)) = Inr (ok, ctx')"
    by (auto simp: RFC_finalize_def Let_def elim!: thenR_InrE split: prod.splits)
  obtain ok1 c1 where [simp]: "r = (ok1, c1)" by (cases r)
  from k have b: "ctx' = c1\<lparr>state := state ctx', residue_cnt := residue_cnt ctx'\<rparr>"
    by (auto simp: Let_def elim!: thenR_InrE split: if_splits)
  from r have "RFC_feed_finalize H ctx = Inr (ok1, c1) \<or> c1 = ctx\<lparr>error := RFC_ERROR_INVARG\<rparr>"
    by (auto simp: RFC_finalize_res_ignore_def elim!: thenR_InrE split: if_splits)
  then have a: "P ctx c1"
  proof
    assume f: "RFC_feed_finalize H ctx = Inr (ok1, c1)"
    show ?thesis by (rule lift_feed_finalize [of P H, OF refl trans pc upd f])
  next
    assume "c1 = ctx\<lparr>error := RFC_ERROR_INVARG\<rparr>"
    then show ?thesis by (intro lift_frame [of P, OF upd]) simp
  qed
  have "P c1 ctx'"
    using b by (intro lift_frame [of P, OF upd]) (cases c1; cases ctx'; simp)
  with a show ?thesis by (rule trans)
qed

lemma lift_run:
  assumes refl: "\<And>c. P c c"
    and trans: "\<And>a b c. P a b \<Longrightarrow> P b c \<Longrightarrow> P a c"
    and pc: "\<And>c f t fl c'. RFC_cycle_process_counts H c f t fl = Inr c' \<Longrightarrow> P c c'"
    and upd: "\<And>c st R n sl e0 e1 p er.
          P c (c\<lparr>state := st, residue := R, residue_cnt := n, internal_slope := sl,
                 internal_extrema0 := e0, internal_extrema1 := e1, internal_pos := p,
                 error := er\<rparr>)"
  shows "list_all counting_call cs \<Longrightarrow> rfc_run H ctx cs = Inr (oks, ctx') \<Longrightarrow> P ctx ctx'"
proof (induction cs arbitrary: ctx oks)
  case Nil
  then show ?case by (simp add: refl)
next
  case (Cons x cs)
  from Cons.prems(2) obtain ok c1 oks1 where
    a: "rfc_apply H ctx x = Inr (ok, c1)" and r: "rfc_run H c1 cs = Inr (oks1, ctx')"
    by (auto elim!: thenR_InrE)
  from Cons.prems(1) have x: "counting_call x" and cs: "list_all counting_call cs" by simp_all
  have "P ctx c1"
  proof (cases x)
    case (Call_feed data n)
    with a have f: "RFC_feed H ctx data n = Inr (ok, c1)" by simp
    show ?thesis by (rule lift_feed [of P H, OF refl trans pc upd f])
  next
    case (Call_finalize m)
    with a have f: "RFC_finalize H ctx m = Inr (ok, c1)" by simp
    show ?thesis by (rule lift_finalize [of P H, OF refl trans pc upd f])
  qed (use x in simp_all)
  moreover have "P c1 ctx'" by (rule Cons.IH [OF cs r])
  ultimately show ?case by (rule trans)
qed

lemma damage_calc_nonneg:
  assumes "RFC_damage_calc H ctx a b = Inr (d, s)"
  shows "0 \<le> d"
  using assms
  by (auto simp: RFC_damage_calc_def RFC_damage_calc_amplitude_def Let_def
           elim!: thenR_InrE split: if_splits)

lemma process_counts_damage_mono:
  assumes "RFC_cycle_process_counts H ctx f t flags = Inr ctx'"
  shows "pseudo_damage ctx \<le> pseudo_damage ctx'"
proof -
  from assms consider "pseudo_damage ctx' = pseudo_damage ctx"
    | a b d s where "RFC_damage_calc H ctx a b = Inr (d, s)"
        "pseudo_damage ctx' = pseudo_damage ctx + d / real (full_inc ctx) * real (curr_inc ctx)"
    by (auto simp: RFC_cycle_process_counts_def Let_def
             elim!: thenR_InrE split: if_splits option.splits)
  then show ?thesis
  proof cases
    case 1
    then show ?thesis by simp
  next
    case 2
    from 2(1) have "0 \<le> d" by (rule damage_calc_nonneg)
    then have "0 \<le> d / real (full_inc ctx) * real (curr_inc ctx)" by simp
    with 2(2) show ?thesis by simp
  qed
qed

lemma init_damage:
  assumes "RFC_init H ctx cc cw co hy fl = Inr (True, c0)"
  shows "pseudo_damage c0 = 0"
  using assms
  by (auto simp: RFC_init_def version_mismatch_def Let_def
           elim!: thenR_InrE split: if_splits prod.splits)

section \<open>Initialization\<close>




section \<open>The residue stress test\<close>

lemma scenario4_run_3_8:
  "map_sum id (map_prod id ctx_view) (scenario4_run 3 8) =
     Inr ([True, True], RFC_STATE_BUSY_INTERIM, 7, 8, Some 8,
          [\<lparr>val = 2, cls = 1, pos = 1\<rparr>, \<lparr>val = 3, cls = 2, pos = 2\<rparr>,
           \<lparr>val = 1, cls = 0, pos = 3\<rparr>, \<lparr>val = 4, cls = 3, pos = 4\<rparr>,
           \<lparr>val = 1, cls = 0, pos = 5\<rparr>, \<lparr>val = 3, cls = 2, pos = 6\<rparr>,
           \<lparr>val = 2, cls = 1, pos = 7\<rparr>],
          Some \<lparr>val = 3, cls = 2, pos = 8\<rparr>,
          Some [0, 0, 0, 0,  0, 0, 0, 0,  0, 0, 0, 0,  0, 0, 0, 0], 2, 4)"
  by (simp add: scenario4_run_def scenario4_def rfc_eval)

lemma scenario4_run_3_9: "scenario4_run 3 9 = Inl MemoryFault"
  by (simp add: scenario4_run_def scenario4_def rfc_eval)

lemma scenario4_run_9_20:
  "map_sum id (map_prod id ctx_view) (scenario4_run 9 20) =
     Inr ([True, True], RFC_STATE_BUSY_INTERIM, 5, 9, Some 9,
          [\<lparr>val = 2, cls = 1, pos = 1\<rparr>, \<lparr>val = 3, cls = 2, pos = 2\<rparr>,
           \<lparr>val = 1, cls = 0, pos = 3\<rparr>, \<lparr>val = 4, cls = 3, pos = 12\<rparr>,
           \<lparr>val = 1, cls = 0, pos = 19\<rparr>],
          Some \<lparr>val = 4, cls = 3, pos = 20\<rparr>,
          Some [0, 0, 4, 0,  0, 0, 0, 0,  0, 8, 0, 0,  2, 0, 0, 0], 2, 4)"
  by (simp add: scenario4_run_def scenario4_def rfc_eval)

lemma scenario4_run_9_21:
  "map_sum id (map_prod id ctx_view) (scenario4_run 9 21) =
     Inr ([True, True], RFC_STATE_BUSY_INTERIM, 4, 9, Some 9,
          [\<lparr>val = 2, cls = 1, pos = 1\<rparr>, \<lparr>val = 3, cls = 2, pos = 2\<rparr>,
           \<lparr>val = 1, cls = 0, pos = 3\<rparr>, \<lparr>val = 4, cls = 3, pos = 20\<rparr>],
          Some \<lparr>val = 1, cls = 0, pos = 21\<rparr>,
          Some [0, 0, 4, 0,  0, 0, 0, 0,  0, 8, 0, 0,  4, 0, 0, 0], 2, 4)"
  by (simp add: scenario4_run_def scenario4_def rfc_eval)

lemma scenario4_finalized_9:
  "map_sum id (map_prod id ctx_view) (scenario4_finalized 9) =
     Inr ([True, True, True], RFC_STATE_FINISHED, 7, 9, Some 9,
          [\<lparr>val = 2, cls = 1, pos = 1\<rparr>, \<lparr>val = 3, cls = 2, pos = 2\<rparr>,
           \<lparr>val = 1, cls = 0, pos = 3\<rparr>, \<lparr>val = 4, cls = 3, pos = 20\<rparr>,
           \<lparr>val = 1, cls = 0, pos = 21\<rparr>, \<lparr>val = 3, cls = 2, pos = 24\<rparr>,
           \<lparr>val = 19 / 10, cls = 1, pos = 25\<rparr>],
          None,
          Some [0, 0, 4, 0,  0, 0, 0, 0,  0, 10, 0, 0,  4, 0, 0, 0], 2, 4)"
  by (simp add: scenario4_finalized_def scenario4_def rfc_eval)

text \<open>
  C5 fails on the code. \<^verbatim>\<open>RFC_init\<close> gives the residue \<open>2 * class_count\<close> elements, and
  \<^verbatim>\<open>RFC_feed_filter_pt\<close> stores the interim point at \<^verbatim>\<open>residue[++residue_cnt]\<close> after
  checking \<^verbatim>\<open>residue_cnt < residue_cap\<close> only. After eight samples of the residue
  stress test the residue holds seven turning points and the interim point in a
  buffer of eight elements; the ninth sample, within the class window like the
  others, passes the assertion (7 < 8) and is written to \<^verbatim>\<open>residue[8]\<close>, outside the
  buffer.
\<close>

theorem residue_overflow:
  "map_sum id (map_prod id residue_cnt) (scenario4_run 3 8) = Inr ([True, True], 7) \<and>
   map_sum id (map_prod id residue_cap) (scenario4_run 3 8) = Inr ([True, True], 8) \<and>
   map_sum id (map_prod id (map_option length \<circ> residue)) (scenario4_run 3 8)
     = Inr ([True, True], Some 8) \<and>
   map_sum id (map_prod id (map_option val \<circ> interim_point)) (scenario4_run 3 8)
     = Inr ([True, True], Some 3) \<and>
   scenario4_run 3 9 = Inl MemoryFault"
proof -
  obtain c where "scenario4_run 3 8 = Inr ([True, True], c)"
    and "residue_cnt c = 7" and "residue_cap c = 8"
    and "map_option length (residue c) = Some 8"
    and "interim_point c = Some \<lparr>val = 3, cls = 2, pos = 8\<rparr>"
    using scenario4_run_3_8 by (rule map_sum_view_InrD)
  then show ?thesis
    using scenario4_run_3_9 by simp
qed

text \<open>
  C10 as stated fails on two counts. With the residue capacity \<open>2 * class_count = 8\<close>
  that \<^verbatim>\<open>RFC_init\<close> allocates, the ninth sample is written outside the buffer. And
  where the buffer has room (an embedded array of nine elements), the point of value
  4 is the interim point with \<^verbatim>\<open>pos = 20\<close> after 20 samples; the sample at position 21
  confirms it, and the cycle closed by that moves it to \<^verbatim>\<open>residue[3]\<close>: its \<^verbatim>\<open>pos\<close> is
  its own position, not that of the confirming sample.
\<close>

theorem scenario4_confirming_sample:
  "scenario4_run 3 9 = Inl MemoryFault \<and>
   scenario4 ! (20 - 1) = 4 \<and>
   map_sum id (map_prod id residue_cnt) (scenario4_run 9 20) = Inr ([True, True], 5) \<and>
   map_sum id (map_prod id (map pos \<circ> residue_points)) (scenario4_run 9 20)
     = Inr ([True, True], [1, 2, 3, 12, 19]) \<and>
   map_sum id (map_prod id interim_point) (scenario4_run 9 20)
     = Inr ([True, True], Some \<lparr>val = 4, cls = 3, pos = 20\<rparr>) \<and>
   map_sum id (map_prod id residue_points) (scenario4_run 9 21)
     = Inr ([True, True], [\<lparr>val = 2, cls = 1, pos = 1\<rparr>, \<lparr>val = 3, cls = 2, pos = 2\<rparr>,
                           \<lparr>val = 1, cls = 0, pos = 3\<rparr>, \<lparr>val = 4, cls = 3, pos = 20\<rparr>]) \<and>
   map_sum id (map_prod id interim_point) (scenario4_run 9 21)
     = Inr ([True, True], Some \<lparr>val = 1, cls = 0, pos = 21\<rparr>)"
proof -
  obtain c where "scenario4_run 9 20 = Inr ([True, True], c)"
    and "residue_cnt c = 5"
    and "residue_points c = [\<lparr>val = 2, cls = 1, pos = 1\<rparr>, \<lparr>val = 3, cls = 2, pos = 2\<rparr>,
           \<lparr>val = 1, cls = 0, pos = 3\<rparr>, \<lparr>val = 4, cls = 3, pos = 12\<rparr>,
           \<lparr>val = 1, cls = 0, pos = 19\<rparr>]"
    and "interim_point c = Some \<lparr>val = 4, cls = 3, pos = 20\<rparr>"
    using scenario4_run_9_20 by (rule map_sum_view_InrD)
  moreover
  obtain c' where "scenario4_run 9 21 = Inr ([True, True], c')"
    and "residue_points c' = [\<lparr>val = 2, cls = 1, pos = 1\<rparr>, \<lparr>val = 3, cls = 2, pos = 2\<rparr>,
           \<lparr>val = 1, cls = 0, pos = 3\<rparr>, \<lparr>val = 4, cls = 3, pos = 20\<rparr>]"
    and "interim_point c' = Some \<lparr>val = 1, cls = 0, pos = 21\<rparr>"
    using scenario4_run_9_21 by (rule map_sum_view_InrD)
  ultimately show ?thesis
    using scenario4_run_3_9 by (simp add: scenario4_def)
qed

text \<open>
  C10, as amended. When the residue buffer has room for nine points, the residue
  stress test returns true from each call and ends in state \<open>FINISHED\<close> with the
  residue values 2, 3, 1, 4, 1, 3, 1.9 at the positions 1, 2, 3, 20, 21, 24, 25; the
  matrix holds 9 full cycles: 2 from class 0 to class 2, 5 from class 2 to class 1
  and 2 from class 3 to class 0 (classes counted from 0), and nothing else. The
  position 20 of the fourth residue point is that of the third sample of value 4.
\<close>

theorem scenario4_result:
  "map_sum id fst (scenario4_finalized 9) = Inr [True, True, True] \<and>
   map_sum id (state \<circ> snd) (scenario4_finalized 9) = Inr RFC_STATE_FINISHED \<and>
   map_sum id (residue_cnt \<circ> snd) (scenario4_finalized 9) = Inr 7 \<and>
   map_sum id (map val \<circ> residue_points \<circ> snd) (scenario4_finalized 9)
     = Inr [2, 3, 1, 4, 1, 3, 19 / 10] \<and>
   map_sum id (map pos \<circ> residue_points \<circ> snd) (scenario4_finalized 9)
     = Inr [1, 2, 3, 20, 21, 24, 25] \<and>
   map_sum id (full_inc \<circ> snd) (scenario4_finalized 9) = Inr 2 \<and>
   map_sum id (rfm_sum \<circ> snd) (scenario4_finalized 9) = Inr (9 * 2) \<and>
   map_sum id (rfm \<circ> snd) (scenario4_finalized 9)
     = Inr (Some [0, 0, 2 * 2, 0,  0, 0, 0, 0,  0, 5 * 2, 0, 0,  2 * 2, 0, 0, 0]) \<and>
   scenario4 ! (20 - 1) = 4 \<and> take (20 - 1) scenario4 = take 16 scenario4 @ [2, 3, 1]"
proof -
  obtain c where "scenario4_finalized 9 = Inr ([True, True, True], c)"
    and "state c = RFC_STATE_FINISHED" and "residue_cnt c = 7"
    and "residue_points c = [\<lparr>val = 2, cls = 1, pos = 1\<rparr>, \<lparr>val = 3, cls = 2, pos = 2\<rparr>,
           \<lparr>val = 1, cls = 0, pos = 3\<rparr>, \<lparr>val = 4, cls = 3, pos = 20\<rparr>,
           \<lparr>val = 1, cls = 0, pos = 21\<rparr>, \<lparr>val = 3, cls = 2, pos = 24\<rparr>,
           \<lparr>val = 19 / 10, cls = 1, pos = 25\<rparr>]"
    and "rfm c = Some [0, 0, 4, 0,  0, 0, 0, 0,  0, 10, 0, 0,  4, 0, 0, 0]"
    and "full_inc c = 2" and "class_count c = 4"
    using scenario4_finalized_9 by (rule map_sum_view_InrD)
  then show ?thesis by (simp add: rfm_sum_def scenario4_def)
qed

section \<open>Streaming\<close>

text \<open>
  C1. Feeding \<open>a\<close> and then \<open>b\<close> is feeding \<open>a @ b\<close> in one call: the same returned
  value and the same context (hence the same matrix, damage and residue), or the
  same abnormal termination; and so for every partition of a sequence into chunks.
\<close>

theorem feed_streaming:
  "RFC_feed H ctx (Some (a @ b)) (length (a @ b)) =
     thenR (RFC_feed H ctx (Some a) (length a)) (\<lambda>(ok, c). RFC_feed H c (Some b) (length b)) \<and>
   (chunks \<noteq> [] \<longrightarrow>
     map_sum id (map_prod last id) (rfc_run H ctx (feed_calls chunks)) =
       RFC_feed H ctx (Some (concat chunks)) (length (concat chunks)))"
  using feed_append [of H ctx a b] feed_partition [of chunks H ctx] by blast

theorem feed_streaming_witness:
  "[[1, 3], [2 :: real], [], [4]] \<noteq> [] \<and>
   map_sum id (map_prod last id)
     (rfc_run (header_inst 3) ctx_init4 (feed_calls [[1, 3], [2], [], [4]])) =
     RFC_feed (header_inst 3) ctx_init4 (Some [1, 3, 2, 4]) 4 \<and>
   map_sum id (map_prod id (map val \<circ> residue_points))
     (RFC_feed (header_inst 3) ctx_init4 (Some [1, 3, 2, 4]) 4) = Inr (True, [1, 3, 2])"
  using feed_streaming [of "header_inst 3" ctx_init4 "[]" "[]" "[[1, 3], [2], [], [4]]"]
  by (simp add: ctx_init4_def rfc_eval)

section \<open>Finalizing\<close>

text \<open>
  C7, as amended. \<^verbatim>\<open>RFC_finalize\<close> with the residual method \<open>NONE\<close> or \<open>IGNORE\<close>, on a
  context of the right version in state \<open>INIT\<close>, \<open>BUSY\<close> or \<open>BUSY_INTERIM\<close>: in state
  \<open>BUSY_INTERIM\<close> it counts the interim point as a turning point (\<open>residue_cnt + 1\<close>,
  state \<open>BUSY\<close>) and runs the four-point detector once; apart from what that pass
  does the context is unchanged, except that a context with a zero class count gets
  an empty residue. If the detector returns, the call returns true, the state is
  \<open>FINISHED\<close>, and every later \<^verbatim>\<open>RFC_feed\<close> returns false and changes nothing.
\<close>

theorem RFC_finalize_ignore:
  assumes "version ctx = SIZEOF_CTX H"
    and "state ctx \<in> {RFC_STATE_INIT, RFC_STATE_BUSY, RFC_STATE_BUSY_INTERIM}"
    and "m = RFC_RES_NONE H \<or> m = RFC_RES_IGNORE H"
  shows "RFC_finalize H ctx m =
           thenR (if state ctx = RFC_STATE_BUSY_INTERIM
                  then RFC_cycle_find_4ptm H
                         (ctx\<lparr>residue_cnt := residue_cnt ctx + 1, state := RFC_STATE_BUSY\<rparr>)
                         (internal_flags ctx)
                  else Inr ctx)
             (\<lambda>c. Inr (True, c\<lparr>residue_cnt := (if class_count ctx = 0 then 0 else residue_cnt c),
                              state := RFC_STATE_FINISHED\<rparr>)) \<and>
         (\<forall>ok c'. RFC_finalize H ctx m = Inr (ok, c') \<longrightarrow>
            ok \<and> state c' = RFC_STATE_FINISHED \<and>
            (\<forall>data n. RFC_feed H c' data n = Inr (False, c')))"
proof (intro conjI allI impI)
  show eq: "RFC_finalize H ctx m =
           thenR (if state ctx = RFC_STATE_BUSY_INTERIM
                  then RFC_cycle_find_4ptm H
                         (ctx\<lparr>residue_cnt := residue_cnt ctx + 1, state := RFC_STATE_BUSY\<rparr>)
                         (internal_flags ctx)
                  else Inr ctx)
             (\<lambda>c. Inr (True, c\<lparr>residue_cnt := (if class_count ctx = 0 then 0 else residue_cnt c),
                              state := RFC_STATE_FINISHED\<rparr>))"
    using assms by (rule RFC_finalize_eq)
  fix ok c' data n
  assume r: "RFC_finalize H ctx m = Inr (ok, c')"
  from r [unfolded eq] obtain c where
    c: "(if state ctx = RFC_STATE_BUSY_INTERIM
                  then RFC_cycle_find_4ptm H
                         (ctx\<lparr>residue_cnt := residue_cnt ctx + 1, state := RFC_STATE_BUSY\<rparr>)
                         (internal_flags ctx)
                  else Inr ctx) = Inr c"
    and c': "ok" "c' = c\<lparr>residue_cnt := (if class_count ctx = 0 then 0 else residue_cnt c),
                              state := RFC_STATE_FINISHED\<rparr>"
    by (auto elim!: thenR_InrE)
  show "ok" by fact
  show s: "state c' = RFC_STATE_FINISHED" using c' by simp
  have "version c = version ctx"
    using c cycle_find_fields(2) by (auto split: if_splits)
  then have "version c' = SIZEOF_CTX H" using c' assms(1) by simp
  then show "RFC_feed H c' data n = Inr (False, c')"
    using s by (intro RFC_feed_rejected) (simp_all add: feeding_def)
qed

theorem RFC_finalize_ignore_witness:
  "version ctx_fed4 = SIZEOF_CTX (header_inst 3) \<and>
   state ctx_fed4 \<in> {RFC_STATE_INIT, RFC_STATE_BUSY, RFC_STATE_BUSY_INTERIM} \<and>
   (0 = RFC_RES_NONE (header_inst 3) \<or> 0 = RFC_RES_IGNORE (header_inst 3)) \<and>
   map_sum id (map_prod id ctx_view) (RFC_finalize (header_inst 3) ctx_fed4 0) =
     Inr (True, RFC_STATE_FINISHED, 2, 8, Some 8,
          [\<lparr>val = 1, cls = 0, pos = 1\<rparr>, \<lparr>val = 4, cls = 3, pos = 4\<rparr>], None,
          Some [0, 0, 0, 0,  0, 0, 0, 0,  0, 2, 0, 0,  0, 0, 0, 0], 2, 4)"
  using RFC_finalize_ignore [of ctx_fed4 "header_inst 3" 0]
  by (simp add: ctx_fed4_def ctx_init4_def rfc_eval)

text \<open>
  C7 as stated fails for a zero class count: the residue is not left as it is, but
  emptied.
\<close>

theorem RFC_finalize_no_classes:
  "map_sum id (map_prod id ctx_view)
     (rfc_run (header_inst 3) (rfc_ctx_zero (header_inst 3) alloc_always)
        [Call_init 0 1 0 (99 / 100) (- 1), Call_feed (Some [1, 3]) 2]) =
     Inr ([True, True], RFC_STATE_BUSY_INTERIM, 1, 3, Some 3,
          [\<lparr>val = 1, cls = 1, pos = 1\<rparr>], Some \<lparr>val = 3, cls = 3, pos = 2\<rparr>, None, 2, 0) \<and>
   map_sum id (map_prod id ctx_view)
     (rfc_run (header_inst 3) (rfc_ctx_zero (header_inst 3) alloc_always)
        [Call_init 0 1 0 (99 / 100) (- 1), Call_feed (Some [1, 3]) 2, Call_finalize 0]) =
     Inr ([True, True, True], RFC_STATE_FINISHED, 0, 3, Some 3, [], None, None, 2, 0)"
  by (simp add: rfc_eval)

section \<open>Errors\<close>

text \<open>
  C6, as amended. Each public function returns a boolean unless the run ends
  abnormally. On a context of the wrong version \<^verbatim>\<open>RFC_init\<close>, \<^verbatim>\<open>RFC_finalize\<close>,
  \<^verbatim>\<open>RFC_deinit\<close> and \<^verbatim>\<open>RFC_feed\<close> (the latter unless the buffer is null and the count
  nonzero) fail an assertion; with assertions off they store \<open>INVARG\<close>, return false
  and change nothing else. \<^verbatim>\<open>RFC_feed\<close> with a null buffer and a nonzero count returns
  false and leaves the whole context as it is, whatever the version. On a context of
  the right version: \<^verbatim>\<open>RFC_feed\<close> and \<^verbatim>\<open>RFC_finalize\<close> outside the feeding states
  (before init, after finalize) return false and leave the whole context as it is, so
  no error code is stored; \<^verbatim>\<open>RFC_init\<close> in a state other than \<open>INIT0\<close> does the same;
  \<^verbatim>\<open>RFC_init\<close> in state \<open>INIT0\<close> with a class count above 512, or a positive class
  count and a class width that is not positive, returns false, stores \<open>INVARG\<close> and
  leaves the state; \<^verbatim>\<open>RFC_finalize\<close> in a feeding state with an unsupported residual
  method fails an assertion, and with assertions off returns false, stores \<open>INVARG\<close>
  and moves the state to \<open>ERROR\<close>. A call of \<^verbatim>\<open>RFC_feed\<close> that returns never moves the
  state to \<open>ERROR\<close>, and on a context of the right version it leaves the error code as
  it was. A matrix counter above \<^verbatim>\<open>RFC_COUNTS_LIMIT\<close> fails an assertion; with
  assertions off it is incremented modulo the range of its type, without error code
  or change of state.
\<close>

theorem error_policy:
  "(version ctx \<noteq> SIZEOF_CTX H \<longrightarrow>
      RFC_init H ctx cc cw co hy fl =
        (if NDEBUG H then Inr (False, ctx\<lparr>error := RFC_ERROR_INVARG\<rparr>) else Inl AssertionFailed) \<and>
      RFC_finalize H ctx m =
        (if NDEBUG H then Inr (False, ctx\<lparr>error := RFC_ERROR_INVARG\<rparr>) else Inl AssertionFailed) \<and>
      RFC_deinit H ctx =
        (if NDEBUG H then Inr (False, ctx\<lparr>error := RFC_ERROR_INVARG\<rparr>) else Inl AssertionFailed) \<and>
      (n = 0 \<or> data \<noteq> None \<longrightarrow>
         RFC_feed H ctx data n =
           (if NDEBUG H then Inr (False, ctx\<lparr>error := RFC_ERROR_INVARG\<rparr>)
            else Inl AssertionFailed))) \<and>
   (n \<noteq> 0 \<longrightarrow> RFC_feed H ctx None n = Inr (False, ctx)) \<and>
   (version ctx = SIZEOF_CTX H \<and> \<not> feeding ctx \<longrightarrow>
      RFC_feed H ctx data n = Inr (False, ctx) \<and> RFC_finalize H ctx m = Inr (False, ctx)) \<and>
   (version ctx = SIZEOF_CTX H \<and> state ctx \<noteq> RFC_STATE_INIT0 \<longrightarrow>
      RFC_init H ctx cc cw co hy fl = Inr (False, ctx)) \<and>
   (version ctx = SIZEOF_CTX H \<and> state ctx = RFC_STATE_INIT0 \<and> cc \<noteq> 0 \<and> (512 < cc \<or> cw \<le> 0) \<longrightarrow>
      (\<exists>c'. RFC_init H ctx cc cw co hy fl = Inr (False, c') \<and>
            error c' = RFC_ERROR_INVARG \<and> state c' = state ctx)) \<and>
   (version ctx = SIZEOF_CTX H \<and> feeding ctx \<and> m \<noteq> RFC_RES_NONE H \<and> m \<noteq> RFC_RES_IGNORE H \<longrightarrow>
      RFC_finalize H ctx m =
        (if NDEBUG H
         then Inr (False, ctx\<lparr>error := RFC_ERROR_INVARG,
                               residue_cnt := (if class_count ctx = 0 then 0 else residue_cnt ctx),
                               state := RFC_STATE_ERROR\<rparr>)
         else Inl AssertionFailed)) \<and>
   (\<forall>ok c'. RFC_feed H ctx data n = Inr (ok, c') \<longrightarrow>
      (state ctx \<noteq> RFC_STATE_ERROR \<longrightarrow> state c' \<noteq> RFC_STATE_ERROR) \<and>
      (version ctx = SIZEOF_CTX H \<longrightarrow> error c' = error ctx)) \<and>
   (rfm ctx = Some M \<and>
    QUANTIZE H ctx (val f) = Inr qf \<and> QUANTIZE H ctx (val t) = Inr qt \<and>
    clamp_class H ctx qf \<noteq> clamp_class H ctx qt \<and>
    flags AND RFC_FLAGS_COUNT_RFM H \<noteq> 0 \<and>
    idx = (class_count ctx * clamp_class H ctx qf + clamp_class H ctx qt) mod (UINT_MAX H + 1) \<and>
    idx < length M \<and> RFC_COUNTS_LIMIT H < M ! idx \<longrightarrow>
      (if NDEBUG H
       then \<exists>c'. RFC_cycle_process_counts H ctx f t flags = Inr c' \<and>
              state c' = state ctx \<and> error c' = error ctx \<and>
              rfm c' = Some (M[idx := (M ! idx + curr_inc ctx) mod (RFC_COUNTS_MAX H + 1)])
       else RFC_cycle_process_counts H ctx f t flags = Inl AssertionFailed))"
proof (intro conjI impI allI)
  show "RFC_feed H ctx None n = Inr (False, ctx)" if "n \<noteq> 0"
    using that by (simp add: RFC_feed_def)
  show "RFC_feed H ctx data n = Inr (False, ctx)"
    if "version ctx = SIZEOF_CTX H \<and> \<not> feeding ctx"
    using that by (simp add: RFC_feed_rejected)
  show "RFC_finalize H ctx m = Inr (False, ctx)"
    if "version ctx = SIZEOF_CTX H \<and> \<not> feeding ctx"
    using that by (simp add: RFC_finalize_def feeding_iff)
  show "RFC_init H ctx cc cw co hy fl = Inr (False, ctx)"
    if "version ctx = SIZEOF_CTX H \<and> state ctx \<noteq> RFC_STATE_INIT0"
    using that by (simp add: RFC_init_def)
  show "\<exists>c'. RFC_init H ctx cc cw co hy fl = Inr (False, c') \<and>
            error c' = RFC_ERROR_INVARG \<and> state c' = state ctx"
    if "version ctx = SIZEOF_CTX H \<and> state ctx = RFC_STATE_INIT0 \<and> cc \<noteq> 0 \<and> (512 < cc \<or> cw \<le> 0)"
    using that by (auto simp: RFC_init_def Let_def)
  show "RFC_finalize H ctx m =
        (if NDEBUG H
         then Inr (False, ctx\<lparr>error := RFC_ERROR_INVARG,
                               residue_cnt := (if class_count ctx = 0 then 0 else residue_cnt ctx),
                               state := RFC_STATE_ERROR\<rparr>)
         else Inl AssertionFailed)"
    if "version ctx = SIZEOF_CTX H \<and> feeding ctx \<and> m \<noteq> RFC_RES_NONE H \<and> m \<noteq> RFC_RES_IGNORE H"
    using that by (auto simp: RFC_finalize_def feeding_iff assert_c_def Let_def)
next
  assume v: "version ctx \<noteq> SIZEOF_CTX H"
  then show "RFC_init H ctx cc cw co hy fl =
        (if NDEBUG H then Inr (False, ctx\<lparr>error := RFC_ERROR_INVARG\<rparr>) else Inl AssertionFailed)"
    by (simp add: RFC_init_def version_mismatch_def assert_c_def)
  from v show "RFC_finalize H ctx m =
        (if NDEBUG H then Inr (False, ctx\<lparr>error := RFC_ERROR_INVARG\<rparr>) else Inl AssertionFailed)"
    by (simp add: RFC_finalize_def version_mismatch_def assert_c_def)
  from v show "RFC_deinit H ctx =
        (if NDEBUG H then Inr (False, ctx\<lparr>error := RFC_ERROR_INVARG\<rparr>) else Inl AssertionFailed)"
    by (simp add: RFC_deinit_def version_mismatch_def assert_c_def)
  from v show "RFC_feed H ctx data n =
        (if NDEBUG H then Inr (False, ctx\<lparr>error := RFC_ERROR_INVARG\<rparr>) else Inl AssertionFailed)"
    if "n = 0 \<or> data \<noteq> None"
    using that by (auto simp: RFC_feed_def version_mismatch_def assert_c_def)
next
  fix ok c'
  assume f: "RFC_feed H ctx data n = Inr (ok, c')"
  show "state c' \<noteq> RFC_STATE_ERROR" if "state ctx \<noteq> RFC_STATE_ERROR"
    using RFC_feed_state(1) [OF f] that by auto
  show "error c' = error ctx" if "version ctx = SIZEOF_CTX H"
    using RFC_feed_state(2) [OF f] that by simp
next
  assume a: "rfm ctx = Some M \<and>
    QUANTIZE H ctx (val f) = Inr qf \<and> QUANTIZE H ctx (val t) = Inr qt \<and>
    clamp_class H ctx qf \<noteq> clamp_class H ctx qt \<and>
    flags AND RFC_FLAGS_COUNT_RFM H \<noteq> 0 \<and>
    idx = (class_count ctx * clamp_class H ctx qf + clamp_class H ctx qt) mod (UINT_MAX H + 1) \<and>
    idx < length M \<and> RFC_COUNTS_LIMIT H < M ! idx"
  show "if NDEBUG H
       then \<exists>c'. RFC_cycle_process_counts H ctx f t flags = Inr c' \<and>
              state c' = state ctx \<and> error c' = error ctx \<and>
              rfm c' = Some (M[idx := (M ! idx + curr_inc ctx) mod (RFC_COUNTS_MAX H + 1)])
       else RFC_cycle_process_counts H ctx f t flags = Inl AssertionFailed"
    by (rule counts_over_limit) (use a in blast)+
qed

theorem error_policy_witness:
  "version (ctx_init4\<lparr>version := 0\<rparr>) \<noteq> SIZEOF_CTX (header_inst 3) \<and>
   RFC_init (header_inst 3) (ctx_init4\<lparr>version := 0\<rparr>) 4 1 0 0 0 = Inl AssertionFailed \<and>
   RFC_feed (header_inst 3) (ctx_init4\<lparr>version := 0\<rparr>) (Some [1]) 1 = Inl AssertionFailed \<and>
   version (ctx_init4\<lparr>version := 0\<rparr>) \<noteq> SIZEOF_CTX ((header_inst 3)\<lparr>NDEBUG := True\<rparr>) \<and>
   RFC_feed ((header_inst 3)\<lparr>NDEBUG := True\<rparr>) (ctx_init4\<lparr>version := 0\<rparr>) (Some [1]) 1
     = Inr (False, ctx_init4\<lparr>version := 0, error := RFC_ERROR_INVARG\<rparr>) \<and>
   RFC_finalize ((header_inst 3)\<lparr>NDEBUG := True\<rparr>) (ctx_init4\<lparr>version := 0\<rparr>) 0
     = Inr (False, ctx_init4\<lparr>version := 0, error := RFC_ERROR_INVARG\<rparr>) \<and>
   RFC_deinit ((header_inst 3)\<lparr>NDEBUG := True\<rparr>) (ctx_init4\<lparr>version := 0\<rparr>)
     = Inr (False, ctx_init4\<lparr>version := 0, error := RFC_ERROR_INVARG\<rparr>) \<and>
   (1 :: nat) \<noteq> 0 \<and>
   version (rfc_ctx_zero (header_inst 3) alloc_always) = SIZEOF_CTX (header_inst 3) \<and>
   \<not> feeding (rfc_ctx_zero (header_inst 3) alloc_always) \<and>
   state (rfc_ctx_zero (header_inst 3) alloc_always) = RFC_STATE_INIT0 \<and>
   (600 :: nat) \<noteq> 0 \<and> (512 < (600 :: nat) \<or> (1 :: real) \<le> 0) \<and>
   RFC_feed (header_inst 3) (rfc_ctx_zero (header_inst 3) alloc_always) None 1
     = Inr (False, rfc_ctx_zero (header_inst 3) alloc_always) \<and>
   RFC_feed (header_inst 3) (rfc_ctx_zero (header_inst 3) alloc_always) (Some [1]) 1
     = Inr (False, rfc_ctx_zero (header_inst 3) alloc_always) \<and>
   RFC_finalize (header_inst 3) (rfc_ctx_zero (header_inst 3) alloc_always) 0
     = Inr (False, rfc_ctx_zero (header_inst 3) alloc_always) \<and>
   map_sum id (map_prod id error)
     (RFC_init (header_inst 3) (rfc_ctx_zero (header_inst 3) alloc_always) 600 1 0 0 0)
     = Inr (False, RFC_ERROR_INVARG) \<and>
   version ctx_init4 = SIZEOF_CTX (header_inst 3) \<and> state ctx_init4 \<noteq> RFC_STATE_INIT0 \<and>
   RFC_init (header_inst 3) ctx_init4 4 1 0 0 0 = Inr (False, ctx_init4) \<and>
   feeding ctx_init4 \<and>
   7 \<noteq> RFC_RES_NONE (header_inst 3) \<and> 7 \<noteq> RFC_RES_IGNORE (header_inst 3) \<and>
   RFC_finalize (header_inst 3) ctx_init4 7 = Inl AssertionFailed \<and>
   RFC_finalize ((header_inst 3)\<lparr>NDEBUG := True\<rparr>) ctx_init4 7
     = Inr (False, ctx_init4\<lparr>error := RFC_ERROR_INVARG, state := RFC_STATE_ERROR\<rparr>) \<and>
   RFC_feed (header_inst 3) ctx_init4 (Some [1, 3, 2, 4]) 4 = Inr (True, ctx_fed4) \<and>
   state ctx_fed4 \<noteq> RFC_STATE_ERROR \<and> error ctx_fed4 = error ctx_init4 \<and>
   rfm (ctx_init4\<lparr>rfm := Some (replicate 16 18446744073709551615)\<rparr>)
     = Some (replicate 16 18446744073709551615) \<and>
   QUANTIZE (header_inst 3) (ctx_init4\<lparr>rfm := Some (replicate 16 18446744073709551615)\<rparr>) 3
     = Inr 2 \<and>
   QUANTIZE (header_inst 3) (ctx_init4\<lparr>rfm := Some (replicate 16 18446744073709551615)\<rparr>) 2
     = Inr 1 \<and>
   RFC_COUNTS_LIMIT (header_inst 3) < replicate 16 18446744073709551615 ! 9 \<and>
   RFC_cycle_process_counts (header_inst 3)
     (ctx_init4\<lparr>rfm := Some (replicate 16 18446744073709551615)\<rparr>)
     \<lparr>val = 3, cls = 2, pos = 2\<rparr> \<lparr>val = 2, cls = 1, pos = 3\<rparr> 3 = Inl AssertionFailed \<and>
   map_sum id rfm (RFC_cycle_process_counts ((header_inst 3)\<lparr>NDEBUG := True\<rparr>)
     (ctx_init4\<lparr>rfm := Some (replicate 16 18446744073709551615)\<rparr>)
     \<lparr>val = 3, cls = 2, pos = 2\<rparr> \<lparr>val = 2, cls = 1, pos = 3\<rparr> 3)
     = Inr (Some ((replicate 16 18446744073709551615)[9 := 1]))"
proof -
  let ?H = "header_inst 3" and ?N = "(header_inst 3)\<lparr>NDEBUG := True\<rparr>"
  let ?Z = "rfc_ctx_zero (header_inst 3) alloc_always"
  let ?V = "ctx_init4\<lparr>version := 0\<rparr>"
  let ?R = "ctx_init4\<lparr>rfm := Some (replicate 16 18446744073709551615)\<rparr>"
  have v1: "version ?V \<noteq> SIZEOF_CTX ?H \<and>
      RFC_init ?H ?V 4 1 0 0 0 = Inl AssertionFailed \<and>
      RFC_feed ?H ?V (Some [1]) 1 = Inl AssertionFailed"
    using error_policy [where H = ?H and ctx = ?V and cc = 4 and cw = 1 and co = 0
            and hy = 0 and fl = 0 and m = 0 and n = 1 and data = "Some [1]", THEN conjunct1]
    by (simp add: ctx_init4_def rfc_eval)
  have v2: "version ?V \<noteq> SIZEOF_CTX ?N \<and>
      RFC_feed ?N ?V (Some [1]) 1 = Inr (False, ctx_init4\<lparr>version := 0, error := RFC_ERROR_INVARG\<rparr>) \<and>
      RFC_finalize ?N ?V 0 = Inr (False, ctx_init4\<lparr>version := 0, error := RFC_ERROR_INVARG\<rparr>) \<and>
      RFC_deinit ?N ?V = Inr (False, ctx_init4\<lparr>version := 0, error := RFC_ERROR_INVARG\<rparr>)"
    using error_policy [where H = ?N and ctx = ?V and cc = 4 and cw = 1 and co = 0
            and hy = 0 and fl = 0 and m = 0 and n = 1 and data = "Some [1]", THEN conjunct1]
    by (simp add: ctx_init4_def rfc_eval)
  have n1: "(1 :: nat) \<noteq> 0 \<and> RFC_feed ?H ?Z None 1 = Inr (False, ?Z)"
    using error_policy [where H = ?H and ctx = ?Z and n = 1, THEN conjunct2, THEN conjunct1]
    by simp
  have z: "version ?Z = SIZEOF_CTX ?H \<and> \<not> feeding ?Z \<and> state ?Z = RFC_STATE_INIT0"
    by (simp add: feeding_def rfc_ctx_zero_def)
  have s1: "RFC_feed ?H ?Z (Some [1]) 1 = Inr (False, ?Z) \<and> RFC_finalize ?H ?Z 0 = Inr (False, ?Z)"
    using error_policy [where H = ?H and ctx = ?Z and n = 1 and data = "Some [1]" and m = 0,
            THEN conjunct2, THEN conjunct2, THEN conjunct1] z
    by simp
  have i1: "(600 :: nat) \<noteq> 0 \<and> (512 < (600 :: nat) \<or> (1 :: real) \<le> 0) \<and>
      map_sum id (map_prod id error) (RFC_init ?H ?Z 600 1 0 0 0) = Inr (False, RFC_ERROR_INVARG)"
    using error_policy [where H = ?H and ctx = ?Z and cc = 600 and cw = 1 and co = 0
            and hy = 0 and fl = 0, THEN conjunct2, THEN conjunct2, THEN conjunct2, THEN conjunct2, THEN conjunct1] z
    by auto
  have c: "version ctx_init4 = SIZEOF_CTX ?H \<and> state ctx_init4 \<noteq> RFC_STATE_INIT0 \<and>
      feeding ctx_init4 \<and> version ctx_init4 = SIZEOF_CTX ?N"
    by (simp add: feeding_def ctx_init4_def rfc_eval)
  have i2: "RFC_init ?H ctx_init4 4 1 0 0 0 = Inr (False, ctx_init4)"
    using error_policy [where H = ?H and ctx = ctx_init4 and cc = 4 and cw = 1 and co = 0
            and hy = 0 and fl = 0, THEN conjunct2, THEN conjunct2, THEN conjunct2, THEN conjunct1] c
    by simp
  have m: "7 \<noteq> RFC_RES_NONE ?H \<and> 7 \<noteq> RFC_RES_IGNORE ?H \<and>
      7 \<noteq> RFC_RES_NONE ?N \<and> 7 \<noteq> RFC_RES_IGNORE ?N \<and> \<not> NDEBUG ?H \<and> NDEBUG ?N"
    by (simp add: header_inst_def)
  have f1: "RFC_finalize ?H ctx_init4 7 = Inl AssertionFailed"
    using error_policy [where H = ?H and ctx = ctx_init4 and m = 7, THEN conjunct2, THEN conjunct2, THEN conjunct2, THEN conjunct2, THEN conjunct2, THEN conjunct1] c m
    by simp
  have cc: "class_count ctx_init4 \<noteq> 0"
    by (simp add: ctx_init4_def rfc_eval)
  have f2: "RFC_finalize ?N ctx_init4 7
      = Inr (False, ctx_init4\<lparr>error := RFC_ERROR_INVARG, state := RFC_STATE_ERROR\<rparr>)"
    using error_policy [where H = ?N and ctx = ctx_init4 and m = 7, THEN conjunct2, THEN conjunct2, THEN conjunct2, THEN conjunct2, THEN conjunct2, THEN conjunct1] c m cc
    by simp
  have fd: "RFC_feed ?H ctx_init4 (Some [1, 3, 2, 4]) 4 = Inr (True, ctx_fed4)"
    by (simp add: ctx_fed4_def ctx_init4_def rfc_eval)
  have st: "state ctx_init4 \<noteq> RFC_STATE_ERROR"
    by (simp add: ctx_init4_def rfc_eval)
  have f3: "state ctx_fed4 \<noteq> RFC_STATE_ERROR \<and> error ctx_fed4 = error ctx_init4"
    using error_policy [where H = ?H and ctx = ctx_init4 and n = 4
            and data = "Some [1, 3, 2, 4]", THEN conjunct2, THEN conjunct2, THEN conjunct2, THEN conjunct2, THEN conjunct2, THEN conjunct2, THEN conjunct1] fd c st
    by blast
  have q: "rfm ?R = Some (replicate 16 18446744073709551615) \<and>
      QUANTIZE ?H ?R 3 = Inr 2 \<and> QUANTIZE ?H ?R 2 = Inr 1 \<and>
      QUANTIZE ?N ?R 3 = Inr 2 \<and> QUANTIZE ?N ?R 2 = Inr 1 \<and>
      RFC_COUNTS_LIMIT ?H < replicate 16 18446744073709551615 ! 9 \<and>
      RFC_COUNTS_LIMIT ?N < replicate 16 18446744073709551615 ! 9 \<and>
      clamp_class ?H ?R 2 = 2 \<and> clamp_class ?H ?R 1 = 1 \<and>
      clamp_class ?N ?R 2 = 2 \<and> clamp_class ?N ?R 1 = 1 \<and>
      class_count ?R = 4 \<and> curr_inc ?R = 2 \<and>
      UINT_MAX ?H = 4294967295 \<and> UINT_MAX ?N = 4294967295 \<and>
      RFC_COUNTS_MAX ?N = 18446744073709551615 \<and>
      RFC_FLAGS_COUNT_RFM ?H = 1 \<and> RFC_FLAGS_COUNT_RFM ?N = 1"
    by (simp add: ctx_init4_def rfc_eval)
  have k1: "RFC_cycle_process_counts ?H ?R \<lparr>val = 3, cls = 2, pos = 2\<rparr>
              \<lparr>val = 2, cls = 1, pos = 3\<rparr> 3 = Inl AssertionFailed"
    using error_policy [where H = ?H and ctx = ?R
            and M = "replicate 16 18446744073709551615"
            and f = "\<lparr>val = 3, cls = 2, pos = 2\<rparr>" and t = "\<lparr>val = 2, cls = 1, pos = 3\<rparr>"
            and qf = 2 and qt = 1 and flags = 3 and idx = 9, THEN conjunct2, THEN conjunct2, THEN conjunct2, THEN conjunct2, THEN conjunct2, THEN conjunct2, THEN conjunct2] q m
    by simp
  have k2: "map_sum id rfm (RFC_cycle_process_counts ?N ?R \<lparr>val = 3, cls = 2, pos = 2\<rparr>
              \<lparr>val = 2, cls = 1, pos = 3\<rparr> 3)
            = Inr (Some ((replicate 16 18446744073709551615)[9 := 1]))"
    using error_policy [where H = ?N and ctx = ?R
            and M = "replicate 16 18446744073709551615"
            and f = "\<lparr>val = 3, cls = 2, pos = 2\<rparr>" and t = "\<lparr>val = 2, cls = 1, pos = 3\<rparr>"
            and qf = 2 and qt = 1 and flags = 3 and idx = 9, THEN conjunct2, THEN conjunct2, THEN conjunct2, THEN conjunct2, THEN conjunct2, THEN conjunct2, THEN conjunct2] q m
    by auto
  from v1 v2 n1 z s1 i1 c i2 m f1 f2 fd f3 q k1 k2 show ?thesis
    by (intro conjI) (elim conjE, assumption)+
qed

text \<open>
  C6 as stated fails: \<^verbatim>\<open>RFC_feed\<close> after \<^verbatim>\<open>RFC_finalize\<close> returns false and stores no
  error code.
\<close>

theorem feed_after_finalize_no_error:
  "map_sum id (map_prod id error)
     (rfc_run (header_inst 3) (rfc_ctx_zero (header_inst 3) alloc_always)
        [Call_init 4 1 (1 / 2) (99 / 100) (- 1), Call_finalize 0, Call_feed (Some [1]) 1]) =
     Inr ([True, True, False], RFC_ERROR_NOERROR) \<and>
   map_sum id (map_prod id state)
     (rfc_run (header_inst 3) (rfc_ctx_zero (header_inst 3) alloc_always)
        [Call_init 4 1 (1 / 2) (99 / 100) (- 1), Call_finalize 0, Call_feed (Some [1]) 1]) =
     Inr ([True, True, False], RFC_STATE_FINISHED)"
  by (simp add: rfc_eval)

section \<open>The damage accumulator\<close>

text \<open>
  C9. After a successful \<^verbatim>\<open>RFC_init\<close> the damage is zero, and over every sequence of
  \<^verbatim>\<open>RFC_feed\<close> and \<^verbatim>\<open>RFC_finalize\<close> calls that follows it stays non-negative and
  never decreases; indeed no call of \<^verbatim>\<open>RFC_feed\<close> or \<^verbatim>\<open>RFC_finalize\<close>, on any
  context, returns with a smaller damage than it was given. (The damage is a real
  number here; rounding of the \<^verbatim>\<open>double\<close> arithmetic is not modelled.)
\<close>

theorem pseudo_damage_monotone:
  assumes "RFC_init H ctx cc cw co hy fl = Inr (True, c0)"
    and "list_all counting_call cs" and "rfc_run H c0 cs = Inr (oks, c1)"
    and "list_all counting_call cs'" and "rfc_run H c1 cs' = Inr (oks', c2)"
  shows "pseudo_damage c0 = 0 \<and> 0 \<le> pseudo_damage c1 \<and> pseudo_damage c1 \<le> pseudo_damage c2 \<and>
         (\<forall>c data n ok c'. RFC_feed H c data n = Inr (ok, c') \<longrightarrow>
            pseudo_damage c \<le> pseudo_damage c') \<and>
         (\<forall>c m ok c'. RFC_finalize H c m = Inr (ok, c') \<longrightarrow>
            pseudo_damage c \<le> pseudo_damage c')"
proof (intro conjI allI impI)
  let ?P = "\<lambda>c c'. pseudo_damage c \<le> pseudo_damage c'"
  have refl: "\<And>c. ?P c c" and trans: "\<And>a b c. ?P a b \<Longrightarrow> ?P b c \<Longrightarrow> ?P a c"
    and upd: "\<And>c st R n sl e0 e1 p er.
          ?P c (c\<lparr>state := st, residue := R, residue_cnt := n, internal_slope := sl,
                 internal_extrema0 := e0, internal_extrema1 := e1, internal_pos := p,
                 error := er\<rparr>)"
    by simp_all
  note pc = process_counts_damage_mono [of H]
  show 0: "pseudo_damage c0 = 0" using assms(1) by (rule init_damage)
  have "?P c0 c1" by (rule lift_run [of ?P H, OF refl trans pc upd assms(2,3)])
  with 0 show "0 \<le> pseudo_damage c1" by simp
  show "?P c1 c2" by (rule lift_run [of ?P H, OF refl trans pc upd assms(4,5)])
  show "?P c c'" if "RFC_feed H c data n = Inr (ok, c')" for c data n ok c'
    by (rule lift_feed [of ?P H, OF refl trans pc upd that])
  show "?P c c'" if "RFC_finalize H c m = Inr (ok, c')" for c m ok c'
    by (rule lift_finalize [of ?P H, OF refl trans pc upd that])
qed

theorem pseudo_damage_monotone_witness:
  "RFC_init (header_inst 3) (rfc_ctx_zero (header_inst 3) alloc_always) 4 1 (1 / 2) (99 / 100) (- 1)
     = Inr (True, ctx_init4) \<and>
   list_all counting_call [Call_feed (Some [1, 3, 2, 4]) 4] \<and>
   rfc_run (header_inst 3) ctx_init4 [Call_feed (Some [1, 3, 2, 4]) 4] = Inr ([True], ctx_fed4) \<and>
   list_all counting_call [Call_finalize 0] \<and>
   map_sum id fst (rfc_run (header_inst 3) ctx_fed4 [Call_finalize 0]) = Inr [True] \<and>
   pseudo_damage ctx_init4 = 0 \<and> 0 \<le> pseudo_damage ctx_fed4 \<and>
   pseudo_damage ctx_fed4 \<le>
     pseudo_damage (snd (projr (rfc_run (header_inst 3) ctx_fed4 [Call_finalize 0])))"
  using pseudo_damage_monotone [of "header_inst 3" "rfc_ctx_zero (header_inst 3) alloc_always"
          4 1 "1 / 2" "99 / 100" "- 1" ctx_init4
          "[Call_feed (Some [1, 3, 2, 4]) 4]" "[True]" ctx_fed4
          "[Call_finalize 0]" "[True]"
          "snd (projr (rfc_run (header_inst 3) ctx_fed4 [Call_finalize 0]))"]
  by (simp add: ctx_fed4_def ctx_init4_def rfc_eval)

section \<open>Counting a closed cycle\<close>

lemma basquin_powr:
  assumes "0 < (Sa :: real)" and "0 < (SD :: real)" and "0 < (ND :: real)"
  shows "exp (k * (ln Sa - ln SD) - ln ND) = (Sa / SD) powr k / ND"
proof -
  from assms have a: "ln Sa - ln SD = ln (Sa / SD)" by (simp add: ln_div)
  from assms have b: "exp (k * ln (Sa / SD)) = (Sa / SD) powr k" by (simp add: powr_def)
  have "exp (k * (ln Sa - ln SD) - ln ND) = exp (k * ln (Sa / SD)) / exp (ln ND)"
    unfolding a by (rule exp_diff)
  with b assms show ?thesis by simp
qed

lemma damage_calc_value:
  assumes "RFC_damage_calc H ctx a b = Inr (d, s)" and "a \<noteq> b" and "0 < class_width ctx"
  shows "d = exp (\<bar>wl_k ctx\<bar> * (ln (class_width ctx * real_of_int \<bar>int b - int a\<bar> / 2)
                 - ln (wl_sd ctx)) - ln (wl_nd ctx))"
  using assms
  by (auto simp: RFC_damage_calc_def RFC_damage_calc_amplitude_def Let_def
           elim!: thenR_InrE split: if_splits)

lemma process_counts_effect:
  assumes run: "RFC_cycle_process_counts H ctx f t flags = Inr ctx'"
  shows "ctx' = ctx
    \<lparr>pseudo_damage :=
       (if cycle_class H ctx (val f) \<noteq> cycle_class H ctx (val t) \<and>
           flags AND RFC_FLAGS_COUNT_DAMAGE H \<noteq> 0
        then pseudo_damage ctx +
             fst (projr (RFC_damage_calc H ctx (cycle_class H ctx (val f))
                           (cycle_class H ctx (val t))))
               / real (full_inc ctx) * real (curr_inc ctx)
        else pseudo_damage ctx),
     rfm :=
       (if cycle_class H ctx (val f) \<noteq> cycle_class H ctx (val t) \<and>
           flags AND RFC_FLAGS_COUNT_RFM H \<noteq> 0
        then map_option (\<lambda>M. M[(class_count ctx * cycle_class H ctx (val f) +
                                  cycle_class H ctx (val t)) mod (UINT_MAX H + 1) :=
                   (M ! ((class_count ctx * cycle_class H ctx (val f) +
                          cycle_class H ctx (val t)) mod (UINT_MAX H + 1)) + curr_inc ctx)
                     mod (RFC_COUNTS_MAX H + 1)]) (rfm ctx)
        else rfm ctx)\<rparr> \<and>
    (cycle_class H ctx (val f) \<noteq> cycle_class H ctx (val t) \<and>
     flags AND RFC_FLAGS_COUNT_DAMAGE H \<noteq> 0 \<longrightarrow>
       (\<exists>d s. RFC_damage_calc H ctx (cycle_class H ctx (val f)) (cycle_class H ctx (val t))
                = Inr (d, s)))"
  using run unfolding RFC_cycle_process_counts_def cycle_class_def
  by (auto simp: thenR_def assert_c_def Let_def
           split: sum.splits if_splits option.splits prod.splits)

lemma diag_index:
  assumes "cf \<noteq> ct" and "cf < cc" and "ct < cc" and "j < (cc :: nat)"
  shows "cc * cf + ct \<noteq> j * cc + j"
proof
  assume eq: "cc * cf + ct = j * cc + j"
  then have "(cc * cf + ct) mod cc = (j * cc + j) mod cc" by simp
  with assms have 1: "ct = j" by simp
  with eq have "cc * cf = cc * j" by (simp add: mult.commute)
  with assms have "cf = j" by simp
  with 1 assms show False by simp
qed

lemma cycle_class_less:
  assumes "0 < class_count ctx"
  shows "cycle_class H ctx v < class_count ctx"
  using assms by (simp add: cycle_class_def clamp_class_def)

lemma process_counts_diag:
  assumes run: "RFC_cycle_process_counts H ctx f t flags = Inr ctx'"
  shows "class_count ctx' = class_count ctx \<and>
         (class_count ctx * class_count ctx \<le> UINT_MAX H + 1 \<longrightarrow>
            (\<forall>j<class_count ctx. rfm_entry ctx' j j = rfm_entry ctx j j))"
proof (intro conjI impI allI)
  let ?cf = "cycle_class H ctx (val f)" and ?ct = "cycle_class H ctx (val t)"
  let ?i = "(class_count ctx * ?cf + ?ct) mod (UINT_MAX H + 1)"
  note e = process_counts_effect [OF run, THEN conjunct1]
  show cc: "class_count ctx' = class_count ctx" by (subst e) simp
  fix j
  assume sq: "class_count ctx * class_count ctx \<le> UINT_MAX H + 1" and j: "j < class_count ctx"
  have r: "rfm ctx' =
       (if ?cf \<noteq> ?ct \<and> flags AND RFC_FLAGS_COUNT_RFM H \<noteq> 0
        then map_option (\<lambda>M. M[?i := (M ! ?i + curr_inc ctx) mod (RFC_COUNTS_MAX H + 1)]) (rfm ctx)
        else rfm ctx)"
    by (subst e) simp
  show "rfm_entry ctx' j j = rfm_entry ctx j j"
  proof (cases "?cf \<noteq> ?ct \<and> flags AND RFC_FLAGS_COUNT_RFM H \<noteq> 0")
    case False
    with r cc show ?thesis by (simp add: rfm_entry_def split: option.splits)
  next
    case True
    from j have p: "0 < class_count ctx" by simp
    then have lf: "?cf < class_count ctx" and lt: "?ct < class_count ctx"
      by (rule cycle_class_less)+
    from lf have "?cf + 1 \<le> class_count ctx" by simp
    then have "class_count ctx * (?cf + 1) \<le> class_count ctx * class_count ctx"
      by (rule mult_le_mono2)
    with lt sq have "class_count ctx * ?cf + ?ct < UINT_MAX H + 1" by simp
    then have i: "?i = class_count ctx * ?cf + ?ct" by simp
    from True lf lt j have "class_count ctx * ?cf + ?ct \<noteq> j * class_count ctx + j"
      by (intro diag_index) simp_all
    with i have ne: "?i \<noteq> j * class_count ctx + j" by simp
    show ?thesis
    proof (cases "rfm ctx")
      case None
      with r True cc show ?thesis by (simp add: rfm_entry_def split: option.splits)
    next
      case (Some M)
      with r True cc ne show ?thesis by (simp add: rfm_entry_def split: option.splits)
    qed
  qed
qed

lemma init_diag:
  assumes i: "RFC_init H ctx cc cw co hy fl = Inr (True, c0)"
    and fl: "(if fl = RFC_FLAGS_DEFAULT H
              then RFC_FLAGS_COUNT_RFM H OR RFC_FLAGS_COUNT_DAMAGE H else fl)
             AND RFC_FLAGS_COUNT_RFM H \<noteq> 0"
    and j: "j < cc"
  shows "class_count c0 = cc" and "rfm_entry c0 j j = 0"
proof -
  from i j fl have "class_count c0 = cc \<and> rfm c0 = Some (replicate (cc * cc) 0)"
    by (auto simp: RFC_init_def version_mismatch_def Let_def RFC_wl_init_def
             elim!: thenR_InrE split: if_splits prod.splits)
  then have c: "class_count c0 = cc" and r: "rfm c0 = Some (replicate (cc * cc) 0)" by simp_all
  show "class_count c0 = cc" by fact
  from j have "j + 1 \<le> cc" by simp
  then have "cc * (j + 1) \<le> cc * cc" by (rule mult_le_mono2)
  with j have "j * cc + j < cc * cc" by (simp add: mult.commute)
  with c r show "rfm_entry c0 j j = 0" by (simp add: rfm_entry_def)
qed

lemma run_diag:
  assumes cs: "list_all counting_call cs" and run: "rfc_run H c cs = Inr (oks, c1)"
  shows "class_count c1 = class_count c \<and>
         (class_count c * class_count c \<le> UINT_MAX H + 1 \<longrightarrow>
            (\<forall>j<class_count c. rfm_entry c1 j j = rfm_entry c j j))"
proof -
  let ?P = "\<lambda>c c'. class_count c' = class_count c \<and>
         (class_count c * class_count c \<le> UINT_MAX H + 1 \<longrightarrow>
            (\<forall>j<class_count c. rfm_entry c' j j = rfm_entry c j j))"
  have refl: "\<And>c. ?P c c" by simp
  have trans: "\<And>a b c. ?P a b \<Longrightarrow> ?P b c \<Longrightarrow> ?P a c" by simp
  have upd: "\<And>c st R n sl e0 e1 p er.
          ?P c (c\<lparr>state := st, residue := R, residue_cnt := n, internal_slope := sl,
                 internal_extrema0 := e0, internal_extrema1 := e1, internal_pos := p,
                 error := er\<rparr>)"
    by (simp add: rfm_entry_def split: option.splits)
  have pc: "\<And>c f t fl c'. RFC_cycle_process_counts H c f t fl = Inr c' \<Longrightarrow> ?P c c'"
    by (rule process_counts_diag)
  show ?thesis by (rule lift_run [of ?P H, OF refl trans pc upd cs run])
qed

text \<open>
  C3, as amended. A call of \<^verbatim>\<open>RFC_cycle_process_counts\<close> that returns, on a context
  with positive class width and positive Woehler parameters \<open>SD\<close> and \<open>ND\<close>, with \<open>cf\<close>
  and \<open>ct\<close> the clamped classes of the two points: if \<open>cf \<noteq> ct\<close> and the flag
  \<open>COUNT_DAMAGE\<close> is set, the damage increases by \<open>D / full_inc * curr_inc\<close>, where
  \<open>Sa = class_width * |ct - cf| / 2\<close> and \<open>D = (Sa / SD) powr |k| / ND\<close>, which is the
  logarithmic form \<open>exp (|k| * (ln Sa - ln SD) - ln ND)\<close>; if \<open>cf \<noteq> ct\<close>, the flag
  \<open>COUNT_RFM\<close> is set and there is a matrix, its element \<open>class_count * cf + ct\<close> (taken
  modulo the range of \<^verbatim>\<open>unsigned\<close>, which changes nothing when the square of the class
  count fits) increases by \<open>curr_inc\<close>, modulo the range of the counter; nothing else
  changes, and nothing at all when \<open>cf = ct\<close> or when neither flag is set. After a
  successful \<^verbatim>\<open>RFC_init\<close> with the flag \<open>COUNT_RFM\<close>, whose class count squared fits
  in an \<^verbatim>\<open>unsigned\<close>, the diagonal of the matrix is zero after every sequence of
  \<^verbatim>\<open>RFC_feed\<close> and \<^verbatim>\<open>RFC_finalize\<close> calls that returns.
\<close>

theorem cycle_counted:
  assumes run: "RFC_cycle_process_counts H ctx f t flags = Inr ctx'"
    and cw: "0 < class_width ctx" and sd: "0 < wl_sd ctx" and nd: "0 < wl_nd ctx"
  shows
    "(let cf = cycle_class H ctx (val f); ct = cycle_class H ctx (val t);
          Sa = class_width ctx * real_of_int \<bar>int ct - int cf\<bar> / 2;
          D = (Sa / wl_sd ctx) powr \<bar>wl_k ctx\<bar> / wl_nd ctx;
          i = (class_count ctx * cf + ct) mod (UINT_MAX H + 1)
      in ctx' = ctx
           \<lparr>pseudo_damage :=
              (if cf \<noteq> ct \<and> flags AND RFC_FLAGS_COUNT_DAMAGE H \<noteq> 0
               then pseudo_damage ctx + D / real (full_inc ctx) * real (curr_inc ctx)
               else pseudo_damage ctx),
            rfm :=
              (if cf \<noteq> ct \<and> flags AND RFC_FLAGS_COUNT_RFM H \<noteq> 0
               then map_option
                      (\<lambda>M. M[i := (M ! i + curr_inc ctx) mod (RFC_COUNTS_MAX H + 1)]) (rfm ctx)
               else rfm ctx)\<rparr> \<and>
         (cf \<noteq> ct \<longrightarrow>
            D = exp (\<bar>wl_k ctx\<bar> * (ln Sa - ln (wl_sd ctx)) - ln (wl_nd ctx))) \<and>
         (0 < class_count ctx \<and> class_count ctx * class_count ctx \<le> UINT_MAX H + 1 \<longrightarrow>
            cf < class_count ctx \<and> ct < class_count ctx \<and> i = cf * class_count ctx + ct)) \<and>
     (RFC_init H c cc cw' co hy fl = Inr (True, c0) \<and>
      (if fl = RFC_FLAGS_DEFAULT H
       then RFC_FLAGS_COUNT_RFM H OR RFC_FLAGS_COUNT_DAMAGE H else fl)
        AND RFC_FLAGS_COUNT_RFM H \<noteq> 0 \<and>
      list_all counting_call cs \<and> rfc_run H c0 cs = Inr (oks, c1) \<and>
      cc * cc \<le> UINT_MAX H + 1 \<and> j < cc \<longrightarrow>
        rfm_entry c1 j j = 0)"
proof (intro conjI impI)
  let ?cf = "cycle_class H ctx (val f)" and ?ct = "cycle_class H ctx (val t)"
  let ?Sa = "class_width ctx * real_of_int \<bar>int ?ct - int ?cf\<bar> / 2"
  let ?D = "(?Sa / wl_sd ctx) powr \<bar>wl_k ctx\<bar> / wl_nd ctx"
  let ?i = "(class_count ctx * ?cf + ?ct) mod (UINT_MAX H + 1)"
  note e = process_counts_effect [OF run, THEN conjunct1]
  have lg: "?D = exp (\<bar>wl_k ctx\<bar> * (ln ?Sa - ln (wl_sd ctx)) - ln (wl_nd ctx))" if "?cf \<noteq> ?ct"
  proof -
    from that have "0 < real_of_int \<bar>int ?ct - int ?cf\<bar>" by simp
    with cw have "0 < ?Sa" by simp
    show ?thesis by (rule basquin_powr [OF \<open>0 < ?Sa\<close> sd nd, symmetric])
  qed
  have d: "fst (projr (RFC_damage_calc H ctx ?cf ?ct)) = ?D"
    if c: "?cf \<noteq> ?ct \<and> flags AND RFC_FLAGS_COUNT_DAMAGE H \<noteq> 0"
  proof -
    from process_counts_effect [OF run, THEN conjunct2] c
    obtain d s where dc: "RFC_damage_calc H ctx ?cf ?ct = Inr (d, s)" by blast
    from c have ne: "?cf \<noteq> ?ct" by simp
    have "fst (projr (RFC_damage_calc H ctx ?cf ?ct)) = d" using dc by simp
    also have "d = exp (\<bar>wl_k ctx\<bar> * (ln ?Sa - ln (wl_sd ctx)) - ln (wl_nd ctx))"
      by (rule damage_calc_value [OF dc ne cw])
    also have "\<dots> = ?D" by (rule lg [OF ne, symmetric])
    finally show ?thesis .
  qed
  have idx: "?cf < class_count ctx \<and> ?ct < class_count ctx \<and> ?i = ?cf * class_count ctx + ?ct"
    if p: "0 < class_count ctx \<and> class_count ctx * class_count ctx \<le> UINT_MAX H + 1"
  proof -
    from p have lf: "?cf < class_count ctx" and lt: "?ct < class_count ctx"
      by (simp_all add: cycle_class_less)
    from lf have "?cf + 1 \<le> class_count ctx" by simp
    then have "class_count ctx * (?cf + 1) \<le> class_count ctx * class_count ctx"
      by (rule mult_le_mono2)
    with lt p have "class_count ctx * ?cf + ?ct < UINT_MAX H + 1" by simp
    then have "?i = class_count ctx * ?cf + ?ct" by simp
    with lf lt show ?thesis by (simp add: mult.commute)
  qed
  have eq: "ctx' = ctx
           \<lparr>pseudo_damage :=
              (if ?cf \<noteq> ?ct \<and> flags AND RFC_FLAGS_COUNT_DAMAGE H \<noteq> 0
               then pseudo_damage ctx + ?D / real (full_inc ctx) * real (curr_inc ctx)
               else pseudo_damage ctx),
            rfm :=
              (if ?cf \<noteq> ?ct \<and> flags AND RFC_FLAGS_COUNT_RFM H \<noteq> 0
               then map_option
                      (\<lambda>M. M[?i := (M ! ?i + curr_inc ctx) mod (RFC_COUNTS_MAX H + 1)]) (rfm ctx)
               else rfm ctx)\<rparr>"
  proof (cases "?cf \<noteq> ?ct \<and> flags AND RFC_FLAGS_COUNT_DAMAGE H \<noteq> 0")
    case True
    show ?thesis by (subst e) (simp only: True d [OF True] if_True)
  next
    case False
    show ?thesis by (subst e) (simp only: False if_False)
  qed
  show "let cf = cycle_class H ctx (val f); ct = cycle_class H ctx (val t);
          Sa = class_width ctx * real_of_int \<bar>int ct - int cf\<bar> / 2;
          D = (Sa / wl_sd ctx) powr \<bar>wl_k ctx\<bar> / wl_nd ctx;
          i = (class_count ctx * cf + ct) mod (UINT_MAX H + 1)
      in ctx' = ctx
           \<lparr>pseudo_damage :=
              (if cf \<noteq> ct \<and> flags AND RFC_FLAGS_COUNT_DAMAGE H \<noteq> 0
               then pseudo_damage ctx + D / real (full_inc ctx) * real (curr_inc ctx)
               else pseudo_damage ctx),
            rfm :=
              (if cf \<noteq> ct \<and> flags AND RFC_FLAGS_COUNT_RFM H \<noteq> 0
               then map_option
                      (\<lambda>M. M[i := (M ! i + curr_inc ctx) mod (RFC_COUNTS_MAX H + 1)]) (rfm ctx)
               else rfm ctx)\<rparr> \<and>
         (cf \<noteq> ct \<longrightarrow>
            D = exp (\<bar>wl_k ctx\<bar> * (ln Sa - ln (wl_sd ctx)) - ln (wl_nd ctx))) \<and>
         (0 < class_count ctx \<and> class_count ctx * class_count ctx \<le> UINT_MAX H + 1 \<longrightarrow>
            cf < class_count ctx \<and> ct < class_count ctx \<and> i = cf * class_count ctx + ct)"
    unfolding Let_def
  proof (intro conjI impI)
    show "ctx' = ctx
           \<lparr>pseudo_damage :=
              (if ?cf \<noteq> ?ct \<and> flags AND RFC_FLAGS_COUNT_DAMAGE H \<noteq> 0
               then pseudo_damage ctx + ?D / real (full_inc ctx) * real (curr_inc ctx)
               else pseudo_damage ctx),
            rfm :=
              (if ?cf \<noteq> ?ct \<and> flags AND RFC_FLAGS_COUNT_RFM H \<noteq> 0
               then map_option
                      (\<lambda>M. M[?i := (M ! ?i + curr_inc ctx) mod (RFC_COUNTS_MAX H + 1)]) (rfm ctx)
               else rfm ctx)\<rparr>"
      by (rule eq)
    show "?D = exp (\<bar>wl_k ctx\<bar> * (ln ?Sa - ln (wl_sd ctx)) - ln (wl_nd ctx))" if "?cf \<noteq> ?ct"
      using that by (rule lg)
    show "?cf < class_count ctx"
      if "0 < class_count ctx \<and> class_count ctx * class_count ctx \<le> UINT_MAX H + 1"
      using idx [OF that] by (elim conjE)
    show "?ct < class_count ctx"
      if "0 < class_count ctx \<and> class_count ctx * class_count ctx \<le> UINT_MAX H + 1"
      using idx [OF that] by (elim conjE)
    show "?i = ?cf * class_count ctx + ?ct"
      if "0 < class_count ctx \<and> class_count ctx * class_count ctx \<le> UINT_MAX H + 1"
      using idx [OF that] by (elim conjE)
  qed
next
  assume a: "RFC_init H c cc cw' co hy fl = Inr (True, c0) \<and>
      (if fl = RFC_FLAGS_DEFAULT H
       then RFC_FLAGS_COUNT_RFM H OR RFC_FLAGS_COUNT_DAMAGE H else fl)
        AND RFC_FLAGS_COUNT_RFM H \<noteq> 0 \<and>
      list_all counting_call cs \<and> rfc_run H c0 cs = Inr (oks, c1) \<and>
      cc * cc \<le> UINT_MAX H + 1 \<and> j < cc"
  then have i: "RFC_init H c cc cw' co hy fl = Inr (True, c0)"
    and fl: "(if fl = RFC_FLAGS_DEFAULT H
       then RFC_FLAGS_COUNT_RFM H OR RFC_FLAGS_COUNT_DAMAGE H else fl)
        AND RFC_FLAGS_COUNT_RFM H \<noteq> 0"
    and cs: "list_all counting_call cs" and r: "rfc_run H c0 cs = Inr (oks, c1)"
    and sq: "cc * cc \<le> UINT_MAX H + 1" and j: "j < cc"
    by blast+
  from init_diag [OF i fl j] have c0: "class_count c0 = cc" and z: "rfm_entry c0 j j = 0"
    by simp_all
  from run_diag [OF cs r] c0 sq j have "rfm_entry c1 j j = rfm_entry c0 j j" by simp
  with z show "rfm_entry c1 j j = 0" by simp
qed

theorem cycle_counted_witness:
  "RFC_cycle_process_counts (header_inst 3) ctx_fed4
       \<lparr>val = 3, cls = 2, pos = 2\<rparr> \<lparr>val = 2, cls = 1, pos = 3\<rparr> 3
     = Inr (projr (RFC_cycle_process_counts (header_inst 3) ctx_fed4
                     \<lparr>val = 3, cls = 2, pos = 2\<rparr> \<lparr>val = 2, cls = 1, pos = 3\<rparr> 3)) \<and>
   0 < class_width ctx_fed4 \<and> 0 < wl_sd ctx_fed4 \<and> 0 < wl_nd ctx_fed4 \<and>
   cycle_class (header_inst 3) ctx_fed4 3 = 2 \<and> cycle_class (header_inst 3) ctx_fed4 2 = 1 \<and>
   pseudo_damage (projr (RFC_cycle_process_counts (header_inst 3) ctx_fed4
                     \<lparr>val = 3, cls = 2, pos = 2\<rparr> \<lparr>val = 2, cls = 1, pos = 3\<rparr> 3))
     = ((1 / 2) / 1000) powr 5 / 10000000 / 2 * 2 \<and>
   rfm_counts (projr (RFC_cycle_process_counts (header_inst 3) ctx_fed4
                     \<lparr>val = 3, cls = 2, pos = 2\<rparr> \<lparr>val = 2, cls = 1, pos = 3\<rparr> 3))
     = Some [0, 0, 0, 0,  0, 0, 0, 0,  0, 2, 0, 0,  0, 0, 0, 0] \<and>
   RFC_init (header_inst 3) (rfc_ctx_zero (header_inst 3) alloc_always) 4 1 (1 / 2) (99 / 100) (- 1)
     = Inr (True, ctx_init4) \<and>
   list_all counting_call [Call_feed (Some [1, 3, 2, 4]) 4, Call_finalize 0] \<and>
   map_sum id fst (rfc_run (header_inst 3) ctx_init4
                     [Call_feed (Some [1, 3, 2, 4]) 4, Call_finalize 0]) = Inr [True, True] \<and>
   (4 :: nat) * 4 \<le> UINT_MAX (header_inst 3) + 1 \<and> (1 :: nat) < 4 \<and>
   rfm_entry (snd (projr (rfc_run (header_inst 3) ctx_init4
                     [Call_feed (Some [1, 3, 2, 4]) 4, Call_finalize 0]))) 1 1 = 0 \<and>
   rfm_entry (snd (projr (rfc_run (header_inst 3) ctx_init4
                     [Call_feed (Some [1, 3, 2, 4]) 4, Call_finalize 0]))) 2 1 = 2"
proof -
  let ?H = "header_inst 3"
  let ?f = "\<lparr>val = 3, cls = 2, pos = 2\<rparr>" and ?t = "\<lparr>val = 2, cls = 1, pos = 3\<rparr>"
  let ?c' = "projr (RFC_cycle_process_counts ?H ctx_fed4 ?f ?t 3)"
  let ?cs = "[Call_feed (Some [1, 3, 2, 4]) 4, Call_finalize 0]"
  let ?c1 = "snd (projr (rfc_run ?H ctx_init4 ?cs))"
  have h: "RFC_cycle_process_counts ?H ctx_fed4 ?f ?t 3 = Inr ?c'"
    by (simp add: ctx_fed4_def ctx_init4_def rfc_eval)
  have v: "class_width ctx_fed4 = 1 \<and> wl_sd ctx_fed4 = 1000 \<and> wl_nd ctx_fed4 = 10000000 \<and>
      wl_k ctx_fed4 = - 5 \<and> full_inc ctx_fed4 = 2 \<and> curr_inc ctx_fed4 = 2 \<and>
      class_count ctx_fed4 = 4 \<and> rfm ctx_fed4 = Some (replicate 16 0) \<and>
      pseudo_damage ctx_fed4 = 0 \<and>
      cycle_class ?H ctx_fed4 3 = 2 \<and> cycle_class ?H ctx_fed4 2 = 1"
    by (simp add: cycle_class_def ctx_fed4_def ctx_init4_def rfc_eval)
  have k: "UINT_MAX ?H = 4294967295 \<and> RFC_COUNTS_MAX ?H = 18446744073709551615 \<and>
      RFC_FLAGS_COUNT_RFM ?H = 1 \<and> RFC_FLAGS_COUNT_DAMAGE ?H = 2 \<and> RFC_FLAGS_DEFAULT ?H = - 1"
    by (simp add: header_inst_def)
  have p: "0 < class_width ctx_fed4" "0 < wl_sd ctx_fed4" "0 < wl_nd ctx_fed4"
    using v by simp_all
  have i: "RFC_init ?H (rfc_ctx_zero ?H alloc_always) 4 1 (1 / 2) (99 / 100) (- 1)
             = Inr (True, ctx_init4)"
    by (simp add: ctx_init4_def rfc_eval)
  have r: "rfc_run ?H ctx_init4 ?cs = Inr ([True, True], ?c1)"
    by (simp add: ctx_init4_def rfc_eval)
  have e21: "rfm_entry ?c1 2 1 = 2"
    by (simp add: rfm_entry_def ctx_init4_def rfc_eval)
  have fl: "(if (- 1) = RFC_FLAGS_DEFAULT ?H
       then RFC_FLAGS_COUNT_RFM ?H OR RFC_FLAGS_COUNT_DAMAGE ?H else - 1)
        AND RFC_FLAGS_COUNT_RFM ?H \<noteq> 0"
    using k by simp
  have sq: "(4 :: nat) * 4 \<le> UINT_MAX ?H + 1" using k by simp
  note t = cycle_counted [where H = ?H and ctx = ctx_fed4 and f = ?f and t = ?t and flags = 3
        and ctx' = ?c' and c = "rfc_ctx_zero ?H alloc_always" and cc = 4 and cw' = 1
        and co = "1 / 2" and hy = "99 / 100" and fl = "- 1" and ?c0.0 = ctx_init4
        and cs = ?cs and oks = "[True, True]" and ?c1.0 = ?c1 and j = 1, OF h p]
  from t [THEN conjunct2] i fl r sq have d: "rfm_entry ?c1 1 1 = 0" by simp
  note e = t [THEN conjunct1, unfolded Let_def, THEN conjunct1]
  have pd: "pseudo_damage ?c' = ((1 / 2) / 1000) powr 5 / 10000000 / 2 * 2"
    by (subst e) (simp add: v k)
  have m: "rfm_counts ?c' = Some [0, 0, 0, 0,  0, 0, 0, 0,  0, 2, 0, 0,  0, 0, 0, 0]"
    by (subst e) (simp add: v k rfm_counts_def nth_list_update upt_rec)
  have r': "map_sum id fst (rfc_run ?H ctx_init4 ?cs) = Inr [True, True]"
    by (simp add: ctx_init4_def rfc_eval)
  have l: "list_all counting_call ?cs" and o: "(1 :: nat) < 4" by simp_all
  from h p v pd m i l r' sq o d e21 show ?thesis
    by (intro conjI) (elim conjE, assumption)+
qed

text \<open>
  C3 as stated fails: with the flag \<open>COUNT_RFM\<close> alone the cycle between the classes 2
  and 1 is counted in the matrix and the damage stays zero.
\<close>

theorem damage_flag_off:
  "map_sum id (map_prod id pseudo_damage)
     (rfc_run (header_inst 3) (rfc_ctx_zero (header_inst 3) alloc_always)
        [Call_init 4 1 (1 / 2) (99 / 100) 1, Call_feed (Some [1, 3, 2, 4]) 4, Call_finalize 0]) =
     Inr ([True, True, True], 0) \<and>
   map_sum id (map_prod id rfm_counts)
     (rfc_run (header_inst 3) (rfc_ctx_zero (header_inst 3) alloc_always)
        [Call_init 4 1 (1 / 2) (99 / 100) 1, Call_feed (Some [1, 3, 2, 4]) 4, Call_finalize 0]) =
     Inr ([True, True, True], Some [0, 0, 0, 0,  0, 0, 0, 0,  0, 2, 0, 0,  0, 0, 0, 0])"
  by (simp add: rfc_eval)

end
